theory Spec2Isabelle
  imports Complex_Main "HOL-Library.Sublist" "HOL-Library.Word"
begin

section \<open>Strings and lines\<close>

text \<open>
  A JavaScript string is modelled as a \<^typ>\<open>string\<close>: one \<^typ>\<open>char\<close> stands for one
  code unit, and \<^const>\<open>length\<close> is the \<^verbatim>\<open>.length\<close> of the source. The
  program only compares code units with the line feed, counts them and concatenates.
\<close>

definition nl :: char where
  "nl = CHR 0x0A"

text \<open>
  \<^verbatim>\<open>text.split('\n')\<close>: the pieces between line feeds, always at least one piece
  (the empty string splits into one empty piece).
\<close>

fun split_nl :: "string \<Rightarrow> string list" where
  "split_nl [] = [[]]"
| "split_nl (c # cs) =
     (if c = nl then [] # split_nl cs
      else (c # hd (split_nl cs)) # tl (split_nl cs))"

section \<open>chunkText\<close>

text \<open>
  The body of the \<^verbatim>\<open>for (const line of lines)\<close> loop of \<^verbatim>\<open>chunkText\<close>. The
  state is the pair of \<^verbatim>\<open>chunks\<close> and \<^verbatim>\<open>currentChunk\<close>; an empty string is
  falsy, so \<^verbatim>\<open>if (currentChunk)\<close> is the test \<open>cur \<noteq> []\<close>.
\<close>

definition chunk_step :: "nat \<Rightarrow> string list \<times> string \<Rightarrow> string \<Rightarrow> string list \<times> string" where
  "chunk_step maxChunkSize st line =
     (let chunks = fst st; currentChunk = snd st;
          st' = (if length (currentChunk @ line) > maxChunkSize
                 then (if currentChunk \<noteq> [] then (chunks @ [currentChunk], [])
                       else (chunks, currentChunk))
                 else (chunks, currentChunk))
      in (fst st', snd st' @ line @ [nl]))"

definition chunkText :: "string \<Rightarrow> nat \<Rightarrow> string list" where
  "chunkText text maxChunkSize =
     (let st = foldl (chunk_step maxChunkSize) ([], []) (split_nl text)
      in if snd st \<noteq> [] then fst st @ [snd st] else fst st)"

text \<open>The default value of the parameter \<^verbatim>\<open>maxChunkSize\<close>.\<close>

definition defaultMaxChunkSize :: nat where
  "defaultMaxChunkSize = 12000"

text \<open>A line as it is stored in a chunk: followed by a line feed.\<close>

definition terminated :: "string \<Rightarrow> string" where
  "terminated line = line @ [nl]"

definition render :: "string list \<Rightarrow> string" where
  "render ls = concat (map terminated ls)"

text \<open>
  What the loop achieves for a group of lines stored as one chunk: the chunk has at most
  \<open>m + 1\<close> code units, or the group is one line longer than \<open>m\<close>.
\<close>

definition fits :: "nat \<Rightarrow> string list \<Rightarrow> bool" where
  "fits m g \<longleftrightarrow> length (render g) \<le> m + 1 \<or> (length g = 1 \<and> m < length (hd g))"


section \<open>Errors\<close>

text \<open>
  A thrown exception is a value. \<open>Error\<close> is \<^verbatim>\<open>new Error(message)\<close> and whatever the
  external libraries reject with; \<open>TypeError\<close> is the engine's error on reading a
  property of \<^verbatim>\<open>null\<close>. A \<^verbatim>\<open>try\<close> block is a computation of type \<open>error + 'a\<close>,
  and \<open>bind_err\<close> sequences two statements inside it.
\<close>

datatype error = Error string | TypeError string

fun message :: "error \<Rightarrow> string" where
  "message (Error m) = m"
| "message (TypeError m) = m"

definition bind_err :: "error + 'a \<Rightarrow> ('a \<Rightarrow> error + 'b) \<Rightarrow> error + 'b" where
  "bind_err m f = (case m of Inl e \<Rightarrow> Inl e | Inr x \<Rightarrow> f x)"

section \<open>JSON values\<close>

text \<open>
  What \<^verbatim>\<open>JSON.parse\<close> returns. A number is a double, and the program does no
  arithmetic on it: it prints it (into the dedup key), tests it for truthiness and passes
  it on to the store. \<open>JNum\<close> carries the number as the string that the conversion of
  a number to a string gives for it (\<^verbatim>\<open>5000\<close>, \<^verbatim>\<open>50.25\<close>, \<^verbatim>\<open>1e+21\<close>,
  \<^verbatim>\<open>Infinity\<close>). That string determines the double, up to the sign of zero, which
  none of the three uses can tell. An object is the list of its own properties; a lookup
  takes the first binding of a name. \<open>None\<close> of type \<open>jsval\<close> is \<^verbatim>\<open>undefined\<close>.
\<close>

datatype json =
    JNull
  | JBool bool
  | JNum string
  | JStr string
  | JArr "json list"
  | JObj "(string \<times> json) list"

type_synonym jsval = "json option"

text \<open>
  \<open>member_of v k\<close> is \<^verbatim>\<open>v.k\<close> for a value that is not \<^verbatim>\<open>null\<close>. The names the program
  reads (\<^verbatim>\<open>items\<close>, \<^verbatim>\<open>accounts\<close>, \<^verbatim>\<open>creditor\<close>, \<^verbatim>\<open>type\<close>, \<^verbatim>\<open>amount\<close>, ...) are
  not properties of strings, numbers, booleans or arrays, so there the read gives
  \<^verbatim>\<open>undefined\<close>. Reading a property of \<^verbatim>\<open>null\<close> throws.
\<close>

fun member_of :: "json \<Rightarrow> string \<Rightarrow> jsval" where
  "member_of (JObj kvs) k = map_of kvs k"
| "member_of _ k = None"

definition get_prop :: "json \<Rightarrow> string \<Rightarrow> error + jsval" where
  "get_prop v k =
     (if v = JNull
      then Inl (TypeError (''Cannot read properties of null (reading '' @ [CHR 0x27] @ k
                             @ [CHR 0x27] @ '')''))
      else Inr (member_of v k))"

text \<open>The falsy numbers are the zeros and \<^verbatim>\<open>NaN\<close>.\<close>

fun truthy :: "jsval \<Rightarrow> bool" where
  "truthy None = False"
| "truthy (Some JNull) = False"
| "truthy (Some (JBool b)) = b"
| "truthy (Some (JNum n)) = (n \<noteq> ''0'' \<and> n \<noteq> ''NaN'')"
| "truthy (Some (JStr s)) = (s \<noteq> [])"
| "truthy (Some (JArr xs)) = True"
| "truthy (Some (JObj kvs)) = True"

text \<open>\<^verbatim>\<open>a || b\<close> on values.\<close>

definition js_or :: "jsval \<Rightarrow> jsval \<Rightarrow> jsval" where
  "js_or a b = (if truthy a then a else b)"

subsection \<open>Conversion to string in a template literal\<close>

text \<open>
  \<^verbatim>\<open>`${v}`\<close> converts \<open>v\<close> to a string. An array is joined with commas, a
  \<^verbatim>\<open>null\<close> element giving the empty string. An object is converted by its
  \<^verbatim>\<open>toString\<close> method: the inherited one gives \<^verbatim>\<open>[object Object]\<close>; an own property
  \<^verbatim>\<open>toString\<close> of a parsed object is never callable, and then the conversion throws
  (the inherited \<^verbatim>\<open>valueOf\<close> returns the object itself, and an own one is not
  callable either).
\<close>

fun join_comma :: "string list \<Rightarrow> string" where
  "join_comma [] = []"
| "join_comma [s] = s"
| "join_comma (s # t # ss) = s @ '','' @ join_comma (t # ss)"

fun to_string :: "json \<Rightarrow> error + string"
  and elements_to_strings :: "json list \<Rightarrow> error + string list" where
  "to_string JNull = Inr ''null''"
| "to_string (JBool b) = Inr (if b then ''true'' else ''false'')"
| "to_string (JNum n) = Inr n"
| "to_string (JStr s) = Inr s"
| "to_string (JArr xs) = bind_err (elements_to_strings xs) (\<lambda>ss. Inr (join_comma ss))"
| "to_string (JObj kvs) =
     (if map_of kvs ''toString'' = None then Inr ''[object Object]''
      else Inl (TypeError ''Cannot convert object to primitive value''))"
| "elements_to_strings [] = Inr []"
| "elements_to_strings (x # xs) =
     bind_err (if x = JNull then Inr [] else to_string x) (\<lambda>s.
     bind_err (elements_to_strings xs) (\<lambda>ss. Inr (s # ss)))"

definition template_string :: "jsval \<Rightarrow> error + string" where
  "template_string v = (case v of None \<Rightarrow> Inr ''undefined'' | Some j \<Rightarrow> to_string j)"

text \<open>The values whose conversion to a string returns.\<close>

fun printable :: "json \<Rightarrow> bool" where
  "printable (JArr xs) = list_all printable xs"
| "printable (JObj kvs) = (map_of kvs ''toString'' = None)"
| "printable _ = True"

fun printable_val :: "jsval \<Rightarrow> bool" where
  "printable_val None = True"
| "printable_val (Some j) = printable j"

section \<open>processChunksWithOpenAI\<close>

subsection \<open>The per-chunk loop\<close>

text \<open>
  The language service is outside the program. For chunk number \<open>i\<close> with text \<open>c\<close>,
  \<open>llm i c\<close> is what the first two statements of the \<^verbatim>\<open>try\<close> block come to:
  \<open>Inl e\<close> when \<^verbatim>\<open>openai.chat.completions.create\<close>, the read of
  \<^verbatim>\<open>response.choices[0].message.content\<close> or \<^verbatim>\<open>JSON.parse\<close> throws \<open>e\<close>, and
  \<open>Inr parsed\<close> when \<^verbatim>\<open>JSON.parse\<close> returns \<open>parsed\<close>.
\<close>

type_synonym llm_outcome = "error + json"

text \<open>\<^verbatim>\<open>Array.isArray(items)\<close> guards the push: a value that is no array adds nothing.\<close>

fun array_elems :: "jsval \<Rightarrow> json list" where
  "array_elems (Some (JArr xs)) = xs"
| "array_elems _ = []"

text \<open>
  \<^verbatim>\<open>const items = parsed.items || parsed.accounts || []\<close> and the records pushed onto
  \<^verbatim>\<open>allItems\<close>. The right operand of \<^verbatim>\<open>||\<close> is read only when the left one is falsy.
\<close>

definition parsed_records :: "json \<Rightarrow> error + json list" where
  "parsed_records parsed =
     bind_err (get_prop parsed ''items'') (\<lambda>items.
       if truthy items then Inr (array_elems items)
       else bind_err (get_prop parsed ''accounts'') (\<lambda>accounts.
         Inr (array_elems (js_or accounts (Some (JArr []))))))"

text \<open>The \<^verbatim>\<open>try\<close> block of one iteration, and the iteration with its \<^verbatim>\<open>catch\<close>.\<close>

definition chunk_try :: "llm_outcome \<Rightarrow> error + json list" where
  "chunk_try outcome = bind_err outcome parsed_records"

definition chunk_records :: "llm_outcome \<Rightarrow> json list" where
  "chunk_records outcome = (case chunk_try outcome of Inl e \<Rightarrow> [] | Inr items \<Rightarrow> items)"

definition collect_items :: "(nat \<Rightarrow> string \<Rightarrow> llm_outcome) \<Rightarrow> string list \<Rightarrow> json list" where
  "collect_items llm chunks =
     foldl (\<lambda>allItems i. allItems @ chunk_records (llm i (chunks ! i))) [] [0..<length chunks]"

subsection \<open>The deduplication loop\<close>

text \<open>
  \<^verbatim>\<open>`${item.creditor}-${item.type}-${item.amount || 0}`\<close>. Each substitution is read
  and converted in turn. The reads throw on a \<^verbatim>\<open>null\<close> item, the conversions on a
  value that cannot be printed.
\<close>

definition dedup_key :: "json \<Rightarrow> error + string" where
  "dedup_key item =
     bind_err (get_prop item ''creditor'') (\<lambda>creditor.
     bind_err (template_string creditor) (\<lambda>c.
     bind_err (get_prop item ''type'') (\<lambda>ty.
     bind_err (template_string ty) (\<lambda>t.
     bind_err (get_prop item ''amount'') (\<lambda>amount.
     bind_err (template_string (js_or amount (Some (JNum ''0'')))) (\<lambda>a.
       Inr (c @ ''-'' @ t @ ''-'' @ a)))))))"

text \<open>
  The items on which the key can be computed: not \<^verbatim>\<open>null\<close>, and with a creditor, a
  type and an amount that can be printed.
\<close>

definition keyable :: "json \<Rightarrow> bool" where
  "keyable item \<longleftrightarrow>
     item \<noteq> JNull
     \<and> printable_val (member_of item ''creditor'')
     \<and> printable_val (member_of item ''type'')
     \<and> printable_val (js_or (member_of item ''amount'') (Some (JNum ''0'')))"

text \<open>The key of such an item.\<close>

definition key_of :: "json \<Rightarrow> string" where
  "key_of item = projr (dedup_key item)"

text \<open>The state of the loop is the pair of \<^verbatim>\<open>uniqueItems\<close> and \<^verbatim>\<open>seen\<close>.\<close>

definition dedup_step :: "json list \<times> string set \<Rightarrow> json \<Rightarrow> error + json list \<times> string set" where
  "dedup_step st item =
     bind_err (dedup_key item) (\<lambda>key.
       if key \<notin> snd st then Inr (fst st @ [item], insert key (snd st)) else Inr st)"

fun dedup_loop :: "json list \<times> string set \<Rightarrow> json list \<Rightarrow> error + json list \<times> string set" where
  "dedup_loop st [] = Inr st"
| "dedup_loop st (item # items) = bind_err (dedup_step st item) (\<lambda>st'. dedup_loop st' items)"

definition dedup :: "json list \<Rightarrow> error + json list" where
  "dedup allItems = bind_err (dedup_loop ([], {}) allItems) (\<lambda>st. Inr (fst st))"

definition processChunksWithOpenAI ::
  "(nat \<Rightarrow> string \<Rightarrow> llm_outcome) \<Rightarrow> string list \<Rightarrow> string \<Rightarrow> error + json list" where
  "processChunksWithOpenAI llm chunks profileId = dedup (collect_items llm chunks)"

section \<open>Text extraction\<close>

type_synonym bytes = "8 word list"

subsection \<open>extractTextWithOCR\<close>

text \<open>
  One invocation of the OCR helper meets: \<^verbatim>\<open>createWorker\<close>, which may reject before
  the \<^verbatim>\<open>try\<close>; the conversion set-up (\<^verbatim>\<open>require('pdf2pic')\<close>, \<^verbatim>\<open>fromBuffer\<close>), which
  may throw inside it; and for each page the conversion and the recognition, whose
  failure is caught per page. \<^verbatim>\<open>worker.terminate()\<close> is taken to resolve.
\<close>

datatype page_outcome =
    ConvertFailed
  | NoBuffer
  | RecognizeFailed
  | Recognized string

record ocr_run =
  createWorker :: "error option"
  fromBuffer :: "error option"
  page :: "nat \<Rightarrow> page_outcome"

definition pageCount :: nat where
  "pageCount = 10"

fun page_text :: "page_outcome \<Rightarrow> string" where
  "page_text (Recognized text) = text @ [nl, nl]"
| "page_text _ = []"

definition extractTextWithOCR :: "ocr_run \<Rightarrow> error + string" where
  "extractTextWithOCR run =
     (case createWorker run of
        Some e \<Rightarrow> Inl e
      | None \<Rightarrow>
          (case fromBuffer run of
             Some e \<Rightarrow> Inl e
           | None \<Rightarrow>
               Inr (foldl (\<lambda>allText i. allText @ page_text (page run i)) []
                      [1..<Suc pageCount])))"

subsection \<open>extractPdfText\<close>

text \<open>
  \<^verbatim>\<open>String.prototype.trim\<close> removes white space and line terminators at both ends;
  among the code units a \<^typ>\<open>char\<close> can hold these are tab, line feed, vertical tab,
  form feed, carriage return, space and the no-break space.
\<close>

definition is_ws :: "char \<Rightarrow> bool" where
  "is_ws c = (c \<in> set [CHR 0x09, CHR 0x0A, CHR 0x0B, CHR 0x0C, CHR 0x0D, CHR 0x20, CHR 0xA0])"

definition trim :: "string \<Rightarrow> string" where
  "trim s = rev (dropWhile is_ws (rev (dropWhile is_ws s)))"

text \<open>
  \<open>pdfParse buf\<close> is the outcome of \<^verbatim>\<open>pdfParse(pdfBuffer)\<close> with its \<^verbatim>\<open>data.text\<close>;
  \<open>ocr k buf\<close> is what the \<open>k\<close>-th invocation of the OCR helper meets, counted from 0.
  The result is paired with the number of OCR invocations made. Both
  \<^verbatim>\<open>return await extractTextWithOCR(pdfBuffer)\<close> are awaited, and the first stands inside
  the \<^verbatim>\<open>try\<close>: when it rejects, the \<^verbatim>\<open>catch\<close> runs the OCR helper a second time.
\<close>

definition extractPdfText ::
  "(bytes \<Rightarrow> error + string) \<Rightarrow> (nat \<Rightarrow> bytes \<Rightarrow> ocr_run) \<Rightarrow> bytes \<Rightarrow> (error + string) \<times> nat" where
  "extractPdfText pdfParse ocr pdfBuffer =
     (case pdfParse pdfBuffer of
        Inl e \<Rightarrow> (extractTextWithOCR (ocr 0 pdfBuffer), 1)
      | Inr text \<Rightarrow>
          if text \<noteq> [] \<and> length (trim text) > 100 then (Inr text, 0)
          else (case extractTextWithOCR (ocr 0 pdfBuffer) of
                  Inr ocrText \<Rightarrow> (Inr ocrText, 1)
                | Inl e \<Rightarrow> (extractTextWithOCR (ocr 1 pdfBuffer), 2)))"

section \<open>The /process handler\<close>

subsection \<open>The job record and the rows of credit items\<close>

text \<open>
  The row of \<^verbatim>\<open>pdf_processing_jobs\<close> as far as the handler writes it. The time stamps
  \<^verbatim>\<open>started_at\<close> and \<^verbatim>\<open>completed_at\<close> are left out.
\<close>

datatype job_status = Queued | Processing | Completed | Failed

record negative_account =
  na_creditor :: jsval
  na_type :: jsval
  na_amount_cents :: jsval
  na_bureaus :: jsval

record summary =
  total_items :: nat
  negative_items :: nat
  items_saved :: bool
  negative_accounts :: "negative_account list"

record job =
  status :: job_status
  error_message :: "string option"
  result_json :: "summary option"

text \<open>The three payloads of \<^verbatim>\<open>.update(...)\<close> on the job, and their effect on the row.\<close>

datatype job_update =
    SetProcessing
  | SetCompleted summary
  | SetFailed string

fun update_status :: "job_update \<Rightarrow> job_status" where
  "update_status SetProcessing = Processing"
| "update_status (SetCompleted s) = Completed"
| "update_status (SetFailed m) = Failed"

fun apply_update :: "job \<Rightarrow> job_update \<Rightarrow> job" where
  "apply_update j SetProcessing = j\<lparr>status := Processing\<rparr>"
| "apply_update j (SetCompleted s) = j\<lparr>status := Completed, result_json := Some s\<rparr>"
| "apply_update j (SetFailed m) = j\<lparr>status := Failed, error_message := Some m\<rparr>"

text \<open>The object passed to \<^verbatim>\<open>.upsert(...)\<close> on \<^verbatim>\<open>credit_items\<close>.\<close>

record credit_item_row =
  profile_id :: string
  creditor :: jsval
  item_type :: jsval
  amount_cents :: jsval
  opened_date :: jsval
  reported_date :: jsval
  account_last4 :: jsval
  bureaus :: jsval
  is_negative :: jsval
  row_notes :: jsval
  row_status :: string
  confidence :: rat

text \<open>
  The object literal is built inside the per-item \<^verbatim>\<open>try\<close>. Its first read,
  \<^verbatim>\<open>item.creditor\<close>, throws on \<^verbatim>\<open>null\<close>; once it has returned, the item is not
  \<^verbatim>\<open>null\<close> and the other reads cannot throw.
\<close>

definition item_row :: "string \<Rightarrow> json \<Rightarrow> error + credit_item_row" where
  "item_row profileId item =
     bind_err (get_prop item ''creditor'') (\<lambda>c.
       Inr \<lparr> profile_id = profileId,
             creditor = c,
             item_type = member_of item ''type'',
             amount_cents = member_of item ''amount'',
             opened_date = member_of item ''openedDate'',
             reported_date = member_of item ''reportedDate'',
             account_last4 = member_of item ''accountLast4'',
             bureaus = member_of item ''bureaus'',
             is_negative = member_of item ''isNegative'',
             row_notes = member_of item ''notes'',
             row_status = ''TO_SEND'',
             confidence = 8 / 10 \<rparr>)"

subsection \<open>The world outside the handler\<close>

text \<open>
  \<open>download path\<close> is the outcome of the storage download (\<open>Inl m\<close>: a
  \<^verbatim>\<open>downloadError\<close> with message \<open>m\<close>; \<open>Inr buf\<close>: the bytes of the file);
  \<open>upsert i row\<close> tells whether the store takes the row of item number \<open>i\<close> (a
  rejected or throwing upsert writes nothing, and the handler goes on either way);
  \<open>update_lands k\<close> tells whether the store applies the \<open>k\<close>-th update of the job that
  the handler sends, counted from 0. The store client resolves every query with a
  \<^verbatim>\<open>{data, error}\<close> object, a failed request included; the handler does not read the
  reply of an update, so a refused update leaves the row as it was and the handler goes
  on. \<^verbatim>\<open>res.json\<close> is taken to return.
\<close>

record env =
  download :: "string \<Rightarrow> string + bytes"
  pdfParse :: "bytes \<Rightarrow> error + string"
  ocr :: "nat \<Rightarrow> bytes \<Rightarrow> ocr_run"
  llm :: "nat \<Rightarrow> string \<Rightarrow> llm_outcome"
  upsert :: "nat \<Rightarrow> credit_item_row \<Rightarrow> bool"
  update_lands :: "nat \<Rightarrow> bool"

record request =
  jobId :: string
  profileId :: string
  filePath :: string
  fileName :: string

datatype response =
    Success string nat nat
  | Failure string

text \<open>
  What an invocation does: the updates of the job it sends, in order, the rows the store
  has taken, and the reply.
\<close>

record outcome =
  updates :: "job_update list"
  written :: "credit_item_row list"
  reply :: response

subsection \<open>The steps of the handler\<close>

text \<open>From the download to the deduplicated items: the steps that may throw.\<close>

definition extract_items :: "env \<Rightarrow> request \<Rightarrow> error + json list" where
  "extract_items e req =
     (case download e (filePath req) of
        Inl m \<Rightarrow> Inl (Error (''Failed to download file: '' @ m))
      | Inr pdfBuffer \<Rightarrow>
          bind_err (fst (extractPdfText (pdfParse e) (ocr e) pdfBuffer)) (\<lambda>extractedText.
            if extractedText = [] \<or> length extractedText < 100
            then Inl (Error ''Could not extract sufficient text from PDF'')
            else processChunksWithOpenAI (llm e)
                   (chunkText extractedText defaultMaxChunkSize) (profileId req)))"

text \<open>The loop that saves the items, each in its own \<^verbatim>\<open>try\<close>.\<close>

definition save_item :: "env \<Rightarrow> string \<Rightarrow> nat \<times> json \<Rightarrow> credit_item_row list" where
  "save_item e pid ix =
     (case item_row pid (snd ix) of
        Inl err \<Rightarrow> []
      | Inr row \<Rightarrow> if upsert e (fst ix) row then [row] else [])"

definition save_items :: "env \<Rightarrow> string \<Rightarrow> json list \<Rightarrow> credit_item_row list" where
  "save_items e pid creditItems = concat (map (save_item e pid) (enumerate 0 creditItems))"

text \<open>\<^verbatim>\<open>creditItems.filter(item => item.isNegative)\<close>; the read throws on \<^verbatim>\<open>null\<close>.\<close>

fun negativeItems :: "json list \<Rightarrow> error + json list" where
  "negativeItems [] = Inr []"
| "negativeItems (item # items) =
     bind_err (get_prop item ''isNegative'') (\<lambda>neg.
     bind_err (negativeItems items) (\<lambda>rest.
       Inr (if truthy neg then item # rest else rest)))"

text \<open>The projection of a negative item; it has a truthy property, so it is an object.\<close>

definition account_of :: "json \<Rightarrow> negative_account" where
  "account_of item =
     \<lparr> na_creditor = member_of item ''creditor'',
       na_type = member_of item ''type'',
       na_amount_cents = member_of item ''amount'',
       na_bureaus = member_of item ''bureaus'' \<rparr>"

definition make_summary :: "json list \<Rightarrow> json list \<Rightarrow> summary" where
  "make_summary creditItems negItems =
     \<lparr> total_items = length creditItems,
       negative_items = length negItems,
       items_saved = True,
       negative_accounts = map account_of negItems \<rparr>"

text \<open>The \<^verbatim>\<open>catch\<close> of the handler.\<close>

definition fail_with :: "error \<Rightarrow> credit_item_row list \<Rightarrow> outcome" where
  "fail_with err rows =
     \<lparr> updates = [SetProcessing, SetFailed (message err)],
       written = rows,
       reply = Failure (message err) \<rparr>"

definition process :: "env \<Rightarrow> request \<Rightarrow> outcome" where
  "process e req =
     (case extract_items e req of
        Inl err \<Rightarrow> fail_with err []
      | Inr creditItems \<Rightarrow>
          (let rows = save_items e (profileId req) creditItems in
           case negativeItems creditItems of
             Inl err \<Rightarrow> fail_with err rows
           | Inr negItems \<Rightarrow>
               \<lparr> updates = [SetProcessing, SetCompleted (make_summary creditItems negItems)],
                 written = rows,
                 reply = Success (jobId req) (length creditItems) (length negItems) \<rparr>))"

text \<open>
  The job row after the invocation: of the updates sent, those that the store applies,
  in order.
\<close>

definition store_update :: "env \<Rightarrow> job \<Rightarrow> nat \<times> job_update \<Rightarrow> job" where
  "store_update e j ku = (if update_lands e (fst ku) then apply_update j (snd ku) else j)"

definition final_job :: "env \<Rightarrow> request \<Rightarrow> job \<Rightarrow> job" where
  "final_job e req j = foldl (store_update e) j (enumerate 0 (updates (process e req)))"

section \<open>Example records\<close>

text \<open>
  The two records of the specification's example; a record without amount and the same
  record with the amount 0; a further record; and a record whose creditor cannot be
  printed.
\<close>

definition acme :: json where
  "acme = JObj [(''creditor'', JStr ''Acme''), (''type'', JStr ''COLLECTION''),
                (''amount'', JNum ''5000'')]"

definition acme_dup :: json where
  "acme_dup = JObj [(''creditor'', JStr ''Acme''), (''type'', JStr ''COLLECTION''),
                    (''amount'', JNum ''5000''), (''notes'', JStr ''dup'')]"

definition bank :: json where
  "bank = JObj [(''creditor'', JStr ''Bank''), (''type'', JStr ''CREDIT_CARD''),
                (''isNegative'', JBool True)]"

definition bank_zero :: json where
  "bank_zero = JObj [(''creditor'', JStr ''Bank''), (''type'', JStr ''CREDIT_CARD''),
                     (''amount'', JNum ''0''), (''bureaus'', JArr [JStr ''Equifax''])]"

definition loan :: json where
  "loan = JObj [(''creditor'', JStr ''Credit Union''), (''type'', JStr ''AUTO_LOAN''),
                (''amount'', JNum ''1250000''), (''isNegative'', JBool False)]"

definition unprintable :: json where
  "unprintable = JObj [(''creditor'', JObj [(''toString'', JNum ''1'')]),
                       (''type'', JStr ''OTHER'')]"

section \<open>An example run\<close>

text \<open>
  A report of three lines of 12000 characters, which the chunker cuts into three chunks;
  the language service answers the first chunk under \<^verbatim>\<open>items\<close>, fails on the second
  and answers the third under \<^verbatim>\<open>accounts\<close>; the store takes every row and applies
  every update. In the other worlds the third answer brings a new record, the store
  refuses the last update of the job, the PDF has no usable text layer, the OCR worker
  cannot be created either, or the download fails.
\<close>

definition line_a :: string where
  "line_a = replicate 12000 (CHR ''a'')"

definition report_text :: string where
  "report_text = line_a @ nl # line_a @ nl # line_a"

definition pdf_bytes :: bytes where
  "pdf_bytes = [0x25, 0x50, 0x44, 0x46]"

definition blank_ocr :: ocr_run where
  "blank_ocr = \<lparr> createWorker = None, fromBuffer = None, page = (\<lambda>i. ConvertFailed) \<rparr>"

definition broken_ocr :: ocr_run where
  "broken_ocr = blank_ocr\<lparr> createWorker := Some (Error ''Worker failed to start'') \<rparr>"

definition example_llm :: "nat \<Rightarrow> string \<Rightarrow> llm_outcome" where
  "example_llm i c =
     (if i = 0 then Inr (JObj [(''items'', JArr [acme, bank])])
      else if i = 1 then Inl (Error ''Request timed out.'')
      else Inr (JObj [(''accounts'', JArr [acme_dup])]))"

definition partial_llm :: "nat \<Rightarrow> string \<Rightarrow> llm_outcome" where
  "partial_llm i c =
     (if i = 0 then Inr (JObj [(''items'', JArr [acme, bank])])
      else if i = 1 then Inl (Error ''Request timed out.'')
      else Inr (JObj [(''accounts'', JArr [acme_dup, loan])]))"

text \<open>Three answers: under \<^verbatim>\<open>items\<close>, with neither key, under \<^verbatim>\<open>accounts\<close>.\<close>

definition mixed_llm :: "nat \<Rightarrow> string \<Rightarrow> llm_outcome" where
  "mixed_llm i c =
     Inr (JObj (if i = 0 then [(''items'', JArr [acme, bank])]
                else if i = 1 then [(''note'', JStr ''none found'')]
                else [(''accounts'', JArr [loan])]))"

definition example_env :: env where
  "example_env =
     \<lparr> download = (\<lambda>path. Inr pdf_bytes),
       pdfParse = (\<lambda>buf. Inr report_text),
       ocr = (\<lambda>k buf. blank_ocr),
       llm = example_llm,
       upsert = (\<lambda>i row. True),
       update_lands = (\<lambda>k. True) \<rparr>"

definition partial_env :: env where
  "partial_env = example_env\<lparr> llm := partial_llm \<rparr>"

definition refusing_env :: env where
  "refusing_env = example_env\<lparr> update_lands := (\<lambda>k. k = 0) \<rparr>"

definition scanned_env :: env where
  "scanned_env = example_env\<lparr> pdfParse := (\<lambda>buf. Inl (Error ''Invalid PDF structure'')) \<rparr>"

definition unreadable_env :: env where
  "unreadable_env = scanned_env\<lparr> ocr := (\<lambda>k buf. broken_ocr) \<rparr>"

definition missing_env :: env where
  "missing_env = example_env\<lparr> download := (\<lambda>path. Inl ''Object not found'') \<rparr>"

definition example_request :: request where
  "example_request =
     \<lparr> jobId = ''job-1'', profileId = ''profile-1'',
       filePath = ''reports/1.pdf'', fileName = ''1.pdf'' \<rparr>"

definition queued_job :: job where
  "queued_job = \<lparr> status = Queued, error_message = None, result_json = None \<rparr>"

text \<open>Native texts near the threshold: 100 letters, and 60 letters followed by 50 spaces.\<close>

definition text_100 :: string where
  "text_100 = replicate 100 (CHR ''a'')"

definition text_padded :: string where
  "text_padded = replicate 60 (CHR ''a'') @ replicate 50 (CHR '' '')"

definition threshold_env :: env where
  "threshold_env = example_env\<lparr> pdfParse := (\<lambda>buf. Inr text_100) \<rparr>"

definition padded_env :: env where
  "padded_env = example_env\<lparr> pdfParse := (\<lambda>buf. Inr text_padded) \<rparr>"

section \<open>Properties of chunkText\<close>

subsection \<open>Lines\<close>

lemma split_nl_nonempty: "split_nl t \<noteq> []"
  by (induction t) auto

lemma render_split_nl: "render (split_nl t) = t @ [nl]"
proof (induction t)
  case Nil
  show ?case by (simp add: render_def terminated_def)
next
  case (Cons c cs)
  obtain l ls where sp: "split_nl cs = l # ls"
    using split_nl_nonempty [of cs] by (cases "split_nl cs") auto
  with Cons show ?case
    by (auto simp: render_def terminated_def)
qed

lemma split_nl_no_nl: "l \<in> set (split_nl t) \<Longrightarrow> nl \<notin> set l"
proof (induction t arbitrary: l)
  case Nil
  then show ?case by simp
next
  case (Cons c cs)
  obtain l' ls where sp: "split_nl cs = l' # ls"
    using split_nl_nonempty [of cs] by (cases "split_nl cs") auto
  with Cons show ?case
    by (auto split: if_splits)
qed

subsection \<open>The loop keeps every line, in order\<close>

lemma chunk_step_concat:
  "concat (fst (chunk_step m st line)) @ snd (chunk_step m st line)
     = concat (fst st) @ snd st @ terminated line"
  by (simp add: chunk_step_def Let_def terminated_def)

lemma chunk_loop_concat:
  "concat (fst (foldl (chunk_step m) st ls)) @ snd (foldl (chunk_step m) st ls)
     = concat (fst st) @ snd st @ render ls"
proof (induction ls arbitrary: st)
  case Nil
  show ?case by (simp add: render_def)
next
  case (Cons l ls)
  show ?case
    using Cons [of "chunk_step m st l"] chunk_step_concat [of m st l]
    by (simp add: render_def)
qed

lemma concat_chunkText: "concat (chunkText t m) = t @ [nl]"
proof -
  have "concat (chunkText t m)
      = concat (fst (foldl (chunk_step m) ([], []) (split_nl t)))
          @ snd (foldl (chunk_step m) ([], []) (split_nl t))"
    by (simp add: chunkText_def Let_def)
  also have "\<dots> = render (split_nl t)"
    using chunk_loop_concat [of m "([], [])" "split_nl t"] by simp
  finally show ?thesis
    by (simp add: render_split_nl)
qed

subsection \<open>Chunks are groups of consecutive lines\<close>

lemma render_Nil_iff: "render g = [] \<longleftrightarrow> g = []"
  by (cases g) (simp_all add: render_def terminated_def)

lemma render_snoc: "render (g @ [l]) = render g @ l @ [nl]"
  by (simp add: render_def terminated_def)

lemma render_single: "render [l] = l @ [nl]"
  by (simp add: render_def terminated_def)

text \<open>A step of the loop on groups of lines.\<close>

lemma chunk_step_groups:
  "chunk_step m (map render gs, render g) line =
     (if m < length (render g) + length line \<and> g \<noteq> []
      then (map render (gs @ [g]), render [line])
      else (map render gs, render (g @ [line])))"
  by (simp add: chunk_step_def Let_def render_Nil_iff render_snoc render_single)

lemma chunk_loop_groups:
  assumes "[] \<notin> set gs" and "list_all (fits m) gs" and "g = [] \<or> fits m g"
  shows "\<exists>gs' g'. foldl (chunk_step m) (map render gs, render g) ls = (map render gs', render g')
           \<and> concat gs' @ g' = concat gs @ g @ ls
           \<and> [] \<notin> set gs' \<and> list_all (fits m) gs' \<and> (g' = [] \<or> fits m g')"
  using assms
proof (induction ls arbitrary: gs g)
  case Nil
  then show ?case by auto
next
  case (Cons line ls)
  show ?case
  proof (cases "m < length (render g) + length line \<and> g \<noteq> []")
    case True
    have step: "chunk_step m (map render gs, render g) line = (map render (gs @ [g]), render [line])"
      using True by (simp add: chunk_step_groups)
    have a: "[] \<notin> set (gs @ [g])" using Cons.prems True by auto
    have b: "list_all (fits m) (gs @ [g])" using Cons.prems True by auto
    have c: "[line] = [] \<or> fits m [line]"
      by (auto simp: fits_def render_single)
    from Cons.IH [OF a b c] obtain gs' g' where
      "foldl (chunk_step m) (map render (gs @ [g]), render [line]) ls = (map render gs', render g')"
      "concat gs' @ g' = concat (gs @ [g]) @ [line] @ ls"
      "[] \<notin> set gs'" "list_all (fits m) gs'" "g' = [] \<or> fits m g'"
      by blast
    then show ?thesis using step by auto
  next
    case False
    have step: "chunk_step m (map render gs, render g) line = (map render gs, render (g @ [line]))"
      using False by (simp add: chunk_step_groups)
    have c: "g @ [line] = [] \<or> fits m (g @ [line])"
    proof (cases "g = []")
      case True
      then show ?thesis by (auto simp: fits_def render_single)
    next
      case False
      with \<open>\<not> (m < length (render g) + length line \<and> g \<noteq> [])\<close>
      have "length (render g) + length line \<le> m" by simp
      then show ?thesis by (simp add: fits_def render_snoc)
    qed
    from Cons.IH [OF Cons.prems(1) Cons.prems(2) c] obtain gs' g' where
      "foldl (chunk_step m) (map render gs, render (g @ [line])) ls = (map render gs', render g')"
      "concat gs' @ g' = concat gs @ (g @ [line]) @ ls"
      "[] \<notin> set gs'" "list_all (fits m) gs'" "g' = [] \<or> fits m g'"
      by blast
    then show ?thesis using step by auto
  qed
qed

lemma chunkText_groups:
  "\<exists>groups. concat groups = split_nl t \<and> [] \<notin> set groups \<and> list_all (fits m) groups
      \<and> chunkText t m = map render groups"
proof -
  from chunk_loop_groups [of "[]" m "[]" "split_nl t"] obtain gs' g' where
    f: "foldl (chunk_step m) ([], []) (split_nl t) = (map render gs', render g')"
    and c: "concat gs' @ g' = split_nl t"
    and n: "[] \<notin> set gs'" and a: "list_all (fits m) gs'" and g: "g' = [] \<or> fits m g'"
    by (auto simp: render_def)
  show ?thesis
  proof (cases "g' = []")
    case True
    then show ?thesis using f c n a
      by (intro exI [of _ gs']) (simp add: chunkText_def Let_def render_Nil_iff)
  next
    case False
    then show ?thesis using f c n a g
      by (intro exI [of _ "gs' @ [g']"]) (simp add: chunkText_def Let_def render_Nil_iff)
  qed
qed

lemma chunkText_bound:
  assumes "c \<in> set (chunkText t m)"
  shows "length c \<le> m + 1 \<or> (\<exists>l. c = terminated l \<and> nl \<notin> set l \<and> m < length l)"
proof -
  from chunkText_groups [of t m] obtain groups where
    cg: "concat groups = split_nl t" and a: "list_all (fits m) groups"
    and ct: "chunkText t m = map render groups"
    by blast
  from assms ct obtain g where g: "g \<in> set groups" and c: "c = render g" by auto
  from a g have "fits m g" by (simp add: list_all_iff)
  then consider "length (render g) \<le> m + 1" | "length g = 1" "m < length (hd g)"
    by (auto simp: fits_def)
  then show ?thesis
  proof cases
    case 1
    then show ?thesis using c by simp
  next
    case 2
    then obtain l where gl: "g = [l]" and ml: "m < length l"
      by (cases g) auto
    from g gl cg have "l \<in> set (split_nl t)"
      by (metis set_concat UN_I list.set_intros(1))
    then have "nl \<notin> set l" by (rule split_nl_no_nl)
    then show ?thesis using c gl ml by (auto simp: render_single terminated_def)
  qed
qed

lemma chunkText_nonempty_chunks: "[] \<notin> set (chunkText t m)"
proof -
  from chunkText_groups [of t m] obtain groups where
    n: "[] \<notin> set groups" and ct: "chunkText t m = map render groups"
    by blast
  show ?thesis using n ct by (metis imageE list.set_map render_Nil_iff)
qed

lemma split_nl_single: "nl \<notin> set l \<Longrightarrow> split_nl l = [l]"
  by (induction l) auto

lemma split_nl_append: "nl \<notin> set l \<Longrightarrow> split_nl (l @ nl # t) = l # split_nl t"
  by (induction l) auto

text \<open>
  C4: the chunks, concatenated in output order, are the input text followed by one line
  feed (every line of the split is stored with a line feed after it, the last one too),
  and each chunk is a group of consecutive lines, the groups following the order of the
  lines.
\<close>

theorem chunkText_reconstructs_text:
  "concat (chunkText t m) = t @ [nl]
   \<and> (\<exists>groups. concat groups = split_nl t \<and> [] \<notin> set groups
         \<and> chunkText t m = map render groups)"
  using concat_chunkText [of t m] chunkText_groups [of t m] by blast

theorem chunkText_reconstructs_text_witness:
  "concat (chunkText (''ab'' @ [nl] @ ''cdef'' @ [nl] @ ''g'') 8)
     = ''ab'' @ [nl] @ ''cdef'' @ [nl] @ ''g'' @ [nl]
   \<and> chunkText (''ab'' @ [nl] @ ''cdef'' @ [nl] @ ''g'') 8
     = [''ab'' @ [nl] @ ''cdef'' @ [nl], ''g'' @ [nl]]"
  using chunkText_reconstructs_text [of "''ab'' @ [nl] @ ''cdef'' @ [nl] @ ''g''" 8]
  by (simp add: chunkText_def chunk_step_def Let_def nl_def)

text \<open>
  C3: a chunk can be longer than the maximum chunk size without being a single line that
  exceeds it. The test before appending counts the buffer and the line, not the line
  feed appended with the line: two lines that fit exactly give a chunk of
  \<open>maxChunkSize + 1\<close>, and so does one line of exactly \<open>maxChunkSize\<close>, at the
  default size as well.
\<close>

theorem chunkText_exceeds_maxChunkSize:
  "chunkText (''ab'' @ [nl] @ ''cd'') 5 = [''ab'' @ [nl] @ ''cd'' @ [nl]]
   \<and> split_nl (''ab'' @ [nl] @ ''cd'') = [''ab'', ''cd'']
   \<and> map length (chunkText (''ab'' @ [nl] @ ''cd'') 5) = [6]
   \<and> split_nl (replicate 12000 (CHR ''a'')) = [replicate 12000 (CHR ''a'')]
   \<and> map length (chunkText (replicate 12000 (CHR ''a'')) defaultMaxChunkSize) = [12001]"
proof -
  have a: "nl \<notin> set (replicate 12000 (CHR ''a''))"
    by (simp add: nl_def)
  have s: "split_nl (replicate 12000 (CHR ''a'')) = [replicate 12000 (CHR ''a'')]"
    using a by (rule split_nl_single)
  have d: "map length (chunkText (replicate 12000 (CHR ''a'')) defaultMaxChunkSize) = [12001]"
    unfolding chunkText_def s by (simp add: chunk_step_def Let_def defaultMaxChunkSize_def)
  have e: "chunkText (''ab'' @ [nl] @ ''cd'') 5 = [''ab'' @ [nl] @ ''cd'' @ [nl]]"
    by (simp add: chunkText_def chunk_step_def Let_def nl_def)
  have f: "split_nl (''ab'' @ [nl] @ ''cd'') = [''ab'', ''cd'']"
    by (simp add: nl_def)
  show ?thesis using s d e f by simp
qed

text \<open>
  What the loop does guarantee: a chunk has at most \<open>maxChunkSize + 1\<close> code units,
  unless it is a single line longer than \<open>maxChunkSize\<close>; and no chunk is empty.
\<close>

section \<open>Properties of the deduplication\<close>

lemma bind_err_simps [simp]:
  "bind_err (Inl e) f = Inl e"
  "bind_err (Inr x) f = f x"
  by (simp_all add: bind_err_def)

lemma get_prop_not_null: "v \<noteq> JNull \<Longrightarrow> get_prop v k = Inr (member_of v k)"
  by (simp add: get_prop_def)

lemma get_prop_null: "\<exists>e. get_prop JNull k = Inl e"
  by (simp add: get_prop_def)

subsection \<open>Conversion to string\<close>

lemma to_string_printable:
  "printable v \<Longrightarrow> \<exists>s. to_string v = Inr s"
  "list_all printable xs \<Longrightarrow> \<exists>ss. elements_to_strings xs = Inr ss"
  by (induction v and xs rule: to_string_elements_to_strings.induct) auto

lemma to_string_unprintable:
  "\<not> printable v \<Longrightarrow> \<exists>e. to_string v = Inl e"
  "\<not> list_all printable xs \<Longrightarrow> \<exists>e. elements_to_strings xs = Inl e"
proof (induction v and xs rule: to_string_elements_to_strings.induct)
  case (8 x xs)
  show ?case
  proof (cases "printable x")
    case True
    then obtain s where "to_string x = Inr s" using to_string_printable(1) by blast
    moreover have "\<not> list_all printable xs" using 8(3) True by simp
    then obtain e where "elements_to_strings xs = Inl e" using 8(2) by blast
    ultimately show ?thesis by auto
  next
    case False
    then have "x \<noteq> JNull" by auto
    then show ?thesis using 8(1) False by auto
  qed
qed auto

lemma template_string_printable:
  "printable_val v \<Longrightarrow> \<exists>s. template_string v = Inr s"
  by (cases v) (auto simp: template_string_def to_string_printable)

lemma template_string_unprintable:
  "\<not> printable_val v \<Longrightarrow> \<exists>e. template_string v = Inl e"
  by (cases v) (auto simp: template_string_def to_string_unprintable)

subsection \<open>The dedup key\<close>

lemma dedup_key_formula:
  assumes "keyable item"
  shows "\<exists>c t a. template_string (member_of item ''creditor'') = Inr c
           \<and> template_string (member_of item ''type'') = Inr t
           \<and> template_string (if truthy (member_of item ''amount'') then member_of item ''amount''
                                else Some (JNum ''0'')) = Inr a
           \<and> dedup_key item = Inr (c @ ''-'' @ t @ ''-'' @ a)"
proof -
  from assms have n: "item \<noteq> JNull"
    and pc: "printable_val (member_of item ''creditor'')"
    and pt: "printable_val (member_of item ''type'')"
    and pa: "printable_val (js_or (member_of item ''amount'') (Some (JNum ''0'')))"
    by (simp_all add: keyable_def)
  from template_string_printable [OF pc] obtain c where
    c: "template_string (member_of item ''creditor'') = Inr c" by blast
  from template_string_printable [OF pt] obtain t where
    t: "template_string (member_of item ''type'') = Inr t" by blast
  from template_string_printable [OF pa] obtain a where
    a: "template_string (js_or (member_of item ''amount'') (Some (JNum ''0''))) = Inr a" by blast
  have "dedup_key item = Inr (c @ ''-'' @ t @ ''-'' @ a)"
    by (simp add: dedup_key_def get_prop_not_null [OF n] c t a)
  then show ?thesis using c t a by (auto simp: js_or_def)
qed

lemma dedup_key_keyable: "keyable item \<Longrightarrow> dedup_key item = Inr (key_of item)"
  using dedup_key_formula [of item] by (auto simp: key_of_def)

lemma dedup_key_unkeyable: "\<not> keyable item \<Longrightarrow> \<exists>e. dedup_key item = Inl e"
proof (cases "item = JNull")
  case True
  then show ?thesis by (simp add: dedup_key_def get_prop_def)
next
  case False
  assume nk: "\<not> keyable item"
  note g = get_prop_not_null [OF False]
  show ?thesis
  proof (cases "template_string (member_of item ''creditor'')")
    case (Inl e)
    then show ?thesis by (simp add: dedup_key_def g)
  next
    case c: (Inr c)
    show ?thesis
    proof (cases "template_string (member_of item ''type'')")
      case (Inl e)
      then show ?thesis by (simp add: dedup_key_def g c)
    next
      case t: (Inr t)
      have "\<not> printable_val (js_or (member_of item ''amount'') (Some (JNum ''0'')))"
        using nk False c t template_string_unprintable
        by (fastforce simp: keyable_def)
      from template_string_unprintable [OF this] show ?thesis
        by (auto simp: dedup_key_def g c t)
    qed
  qed
qed

lemma keyable_not_null: "keyable item \<Longrightarrow> item \<noteq> JNull"
  by (simp add: keyable_def)

lemma dedup_step_keyable:
  "keyable item \<Longrightarrow>
   dedup_step (u, seen) item =
     Inr (if key_of item \<in> seen then (u, seen) else (u @ [item], insert (key_of item) seen))"
  by (simp add: dedup_step_def dedup_key_keyable)


subsection \<open>The deduplication loop\<close>

lemma dedup_loop_first_seen:
  assumes "list_all keyable xs"
  shows "\<exists>ys. dedup_loop (u, seen) xs = Inr (u @ ys, seen \<union> key_of ` set xs)
           \<and> subseq ys xs
           \<and> distinct (map key_of ys)
           \<and> key_of ` set ys = key_of ` set xs - seen
           \<and> (\<forall>y\<in>set ys. find (\<lambda>x. key_of x = key_of y) xs = Some y)"
  using assms
proof (induction xs arbitrary: u seen)
  case Nil
  show ?case by simp
next
  case (Cons x xs)
  then have x: "keyable x" and xs: "list_all keyable xs" by auto
  show ?case
  proof (cases "key_of x \<in> seen")
    case True
    from Cons.IH [OF xs, of u seen] obtain ys where
      l: "dedup_loop (u, seen) xs = Inr (u @ ys, seen \<union> key_of ` set xs)"
      and s: "subseq ys xs" and d: "distinct (map key_of ys)"
      and k: "key_of ` set ys = key_of ` set xs - seen"
      and f: "\<forall>y\<in>set ys. find (\<lambda>x. key_of x = key_of y) xs = Some y"
      by blast
    have l': "dedup_loop (u, seen) (x # xs) = Inr (u @ ys, seen \<union> key_of ` set (x # xs))"
      using True l x by (simp add: dedup_step_keyable insert_absorb)
    have k': "key_of ` set ys = key_of ` set (x # xs) - seen"
      using True k by auto
    have f': "\<forall>y\<in>set ys. find (\<lambda>z. key_of z = key_of y) (x # xs) = Some y"
    proof
      fix y assume y: "y \<in> set ys"
      then have "key_of y \<notin> seen" using k by auto
      then have "key_of x \<noteq> key_of y" using True by auto
      then show "find (\<lambda>z. key_of z = key_of y) (x # xs) = Some y"
        using f y by simp
    qed
    show ?thesis
      using l' list_emb_Cons [OF s, of x] d k' f' by (intro exI [of _ ys]) simp
  next
    case False
    from Cons.IH [OF xs, of "u @ [x]" "insert (key_of x) seen"] obtain ys where
      l: "dedup_loop (u @ [x], insert (key_of x) seen) xs
            = Inr ((u @ [x]) @ ys, insert (key_of x) seen \<union> key_of ` set xs)"
      and s: "subseq ys xs" and d: "distinct (map key_of ys)"
      and k: "key_of ` set ys = key_of ` set xs - insert (key_of x) seen"
      and f: "\<forall>y\<in>set ys. find (\<lambda>x. key_of x = key_of y) xs = Some y"
      by blast
    have l': "dedup_loop (u, seen) (x # xs) = Inr (u @ (x # ys), seen \<union> key_of ` set (x # xs))"
      using False l x by (simp add: dedup_step_keyable)
    have d': "distinct (map key_of (x # ys))"
      using d k by auto
    have k': "key_of ` set (x # ys) = key_of ` set (x # xs) - seen"
      using False k by auto
    have f': "\<forall>y\<in>set (x # ys). find (\<lambda>z. key_of z = key_of y) (x # xs) = Some y"
    proof
      fix y assume y: "y \<in> set (x # ys)"
      show "find (\<lambda>z. key_of z = key_of y) (x # xs) = Some y"
      proof (cases "key_of x = key_of y")
        case True
        have "y \<notin> set ys"
        proof
          assume "y \<in> set ys"
          then have "key_of y \<in> key_of ` set ys" by simp
          then show False using k True by auto
        qed
        then have "y = x" using y by simp
        then show ?thesis by simp
      next
        case False
        then have "y \<in> set ys" using y by auto
        then show ?thesis using f False by simp
      qed
    qed
    show ?thesis
      using l' s d' k' f' by (intro exI [of _ "x # ys"]) simp
  qed
qed

lemma dedup_loop_distinct:
  assumes "list_all keyable ys" and "distinct (map key_of ys)" and "key_of ` set ys \<inter> seen = {}"
  shows "dedup_loop (u, seen) ys = Inr (u @ ys, seen \<union> key_of ` set ys)"
  using assms
proof (induction ys arbitrary: u seen)
  case Nil
  show ?case by simp
next
  case (Cons y ys)
  then have y: "keyable y" and n: "key_of y \<notin> seen" by auto
  have "dedup_loop (u @ [y], insert (key_of y) seen) ys
          = Inr ((u @ [y]) @ ys, insert (key_of y) seen \<union> key_of ` set ys)"
    using Cons.prems by (intro Cons.IH) auto
  then show ?case using y n by (simp add: dedup_step_keyable)
qed

lemma dedup_loop_unkeyable:
  "\<not> list_all keyable xs \<Longrightarrow> \<exists>e. dedup_loop st xs = Inl e"
proof (induction xs arbitrary: st)
  case Nil
  then show ?case by simp
next
  case (Cons x xs)
  show ?case
  proof (cases "keyable x")
    case False
    from dedup_key_unkeyable [OF this] show ?thesis
      by (auto simp: dedup_step_def)
  next
    case True
    then have "\<not> list_all keyable xs" using Cons.prems by simp
    from Cons.IH [OF this] show ?thesis
      by (cases "dedup_step st x") auto
  qed
qed

lemma dedup_first_seen:
  assumes "list_all keyable xs"
  shows "\<exists>ys. dedup xs = Inr ys \<and> subseq ys xs \<and> distinct (map key_of ys)
           \<and> key_of ` set ys = key_of ` set xs
           \<and> (\<forall>y\<in>set ys. find (\<lambda>x. key_of x = key_of y) xs = Some y)"
  using dedup_loop_first_seen [OF assms, of "[]" "{}"]
  by (auto simp: dedup_def)

lemma dedup_distinct:
  assumes "list_all keyable ys" and "distinct (map key_of ys)"
  shows "dedup ys = Inr ys"
  using dedup_loop_distinct [OF assms, of "{}" "[]"] by (simp add: dedup_def)

lemma dedup_returns_iff: "(\<exists>ys. dedup xs = Inr ys) \<longleftrightarrow> list_all keyable xs"
proof
  assume r: "\<exists>ys. dedup xs = Inr ys"
  show "list_all keyable xs"
  proof (rule ccontr)
    assume "\<not> list_all keyable xs"
    from dedup_loop_unkeyable [OF this, of "([], {})"] r
    show False by (auto simp: dedup_def)
  qed
next
  assume "list_all keyable xs"
  from dedup_first_seen [OF this] show "\<exists>ys. dedup xs = Inr ys" by blast
qed

lemma subseq_subset: "subseq ys xs \<Longrightarrow> set ys \<subseteq> set xs"
  by (induction rule: list_emb.induct) auto

lemma subseq_keyable: "subseq ys xs \<Longrightarrow> list_all keyable xs \<Longrightarrow> list_all keyable ys"
  using subseq_subset [of ys xs] by (auto simp: list_all_iff)


lemma upt_0_Suc: "[0..<Suc n] = 0 # map Suc [0..<n]"
  by (simp add: upt_conv_Cons map_Suc_upt del: upt_Suc)

lemma all_less_Suc_0: "(\<forall>j<Suc i. P j) \<longleftrightarrow> P 0 \<and> (\<forall>j<i. P (Suc j))"
  by (auto simp: less_Suc_eq_0_disj)

text \<open>The positions kept by the loop: first occurrences of a key not seen before.\<close>

lemma dedup_loop_positions:
  assumes "list_all keyable xs"
  shows "dedup_loop (u, seen) xs =
           Inr (u @ map (nth xs)
                      (filter (\<lambda>i. key_of (xs ! i) \<notin> seen
                                   \<and> (\<forall>j<i. key_of (xs ! j) \<noteq> key_of (xs ! i)))
                         [0..<length xs]),
                seen \<union> key_of ` set xs)"
  using assms
proof (induction xs arbitrary: u seen)
  case Nil
  show ?case by simp
next
  case (Cons x xs)
  then have x: "keyable x" and xs: "list_all keyable xs" by auto
  note IH = Cons.IH [OF xs]
  show ?case
  proof (cases "key_of x \<in> seen")
    case True
    have eq: "\<And>i. (key_of (xs ! i) \<notin> seen \<and> key_of x \<noteq> key_of (xs ! i)
                    \<and> (\<forall>j<i. key_of (xs ! j) \<noteq> key_of (xs ! i)))
               \<longleftrightarrow> (key_of (xs ! i) \<notin> seen \<and> (\<forall>j<i. key_of (xs ! j) \<noteq> key_of (xs ! i)))"
      using True by auto
    show ?thesis
      using True x IH [of u seen]
      by (simp add: dedup_step_keyable upt_0_Suc filter_map o_def all_less_Suc_0 eq
            insert_absorb del: upt_Suc)
  next
    case False
    have eq: "\<And>i. (key_of (xs ! i) \<notin> seen \<and> key_of x \<noteq> key_of (xs ! i)
                    \<and> (\<forall>j<i. key_of (xs ! j) \<noteq> key_of (xs ! i)))
               \<longleftrightarrow> (key_of (xs ! i) \<notin> insert (key_of x) seen
                    \<and> (\<forall>j<i. key_of (xs ! j) \<noteq> key_of (xs ! i)))"
      by auto
    show ?thesis
      using False x IH [of "u @ [x]" "insert (key_of x) seen"]
      by (simp add: dedup_step_keyable upt_0_Suc filter_map o_def all_less_Suc_0 eq
            del: upt_Suc)
  qed
qed

lemma dedup_positions:
  assumes "list_all keyable xs"
  shows "dedup xs =
           Inr (map (nth xs)
                  (filter (\<lambda>i. \<forall>j<i. dedup_key (xs ! j) \<noteq> dedup_key (xs ! i)) [0..<length xs]))"
proof -
  have nn: "\<And>i. i < length xs \<Longrightarrow> keyable (xs ! i)"
    using assms by (simp add: list_all_length)
  have "filter (\<lambda>i. \<forall>j<i. dedup_key (xs ! j) \<noteq> dedup_key (xs ! i)) [0..<length xs]
      = filter (\<lambda>i. key_of (xs ! i) \<notin> {} \<and> (\<forall>j<i. key_of (xs ! j) \<noteq> key_of (xs ! i)))
          [0..<length xs]"
    by (rule filter_cong) (auto simp: dedup_key_keyable nn)
  then show ?thesis
    using dedup_loop_positions [OF assms, of "[]" "{}"] by (simp add: dedup_def)
qed

text \<open>
  C5: on a list of records whose keys can be computed (these are the lists on which the
  deduplication returns at all) the deduplication returns a list on which it returns
  that same list again; and the kept records are the records at the positions where a
  key occurs for the first time, in the order of these positions.
\<close>

theorem dedup_idempotent_first_seen_order:
  assumes "list_all keyable xs"
  shows "\<exists>ys. dedup xs = Inr ys \<and> dedup ys = Inr ys \<and> subseq ys xs
           \<and> ys = map (nth xs)
                    (filter (\<lambda>i. \<forall>j<i. dedup_key (xs ! j) \<noteq> dedup_key (xs ! i))
                       [0..<length xs])"
proof -
  from dedup_first_seen [OF assms] obtain ys where
    d: "dedup xs = Inr ys" and s: "subseq ys xs" and k: "distinct (map key_of ys)"
    by blast
  have "list_all keyable ys" using s assms by (rule subseq_keyable)
  then have "dedup ys = Inr ys" using k by (rule dedup_distinct)
  then show ?thesis using d s dedup_positions [OF assms] by simp
qed




subsection \<open>The example records\<close>

lemma example_keys:
  "dedup_key acme = Inr ''Acme-COLLECTION-5000''"
  "dedup_key acme_dup = Inr ''Acme-COLLECTION-5000''"
  "dedup_key bank = Inr ''Bank-CREDIT_CARD-0''"
  "dedup_key bank_zero = Inr ''Bank-CREDIT_CARD-0''"
  "dedup_key loan = Inr ''Credit Union-AUTO_LOAN-1250000''"
  by (simp_all add: acme_def acme_dup_def bank_def bank_zero_def loan_def dedup_key_def
        get_prop_def js_or_def template_string_def)

lemma example_keyable:
  "keyable acme" "keyable acme_dup" "keyable bank" "keyable bank_zero" "keyable loan"
  by (simp_all add: acme_def acme_dup_def bank_def bank_zero_def loan_def keyable_def js_or_def)

lemma example_unprintable_key:
  "\<not> keyable unprintable"
  "dedup_key unprintable = Inl (TypeError ''Cannot convert object to primitive value'')"
  "dedup_key JNull = Inl (TypeError ''Cannot read properties of null (reading 'creditor')'')"
  by (simp_all add: unprintable_def keyable_def dedup_key_def get_prop_def template_string_def)

lemma example_unprintable:
  "dedup [acme, unprintable] = Inl (TypeError ''Cannot convert object to primitive value'')"
  "dedup [JNull] = Inl (TypeError ''Cannot read properties of null (reading 'creditor')'')"
  by (simp_all add: dedup_def dedup_step_def example_keys example_unprintable_key)

lemma example_dedup:
  "dedup [acme, bank, acme_dup] = Inr [acme, bank]"
  "dedup [acme, bank] = Inr [acme, bank]"
  "dedup [acme, bank, acme_dup, bank_zero] = Inr [acme, bank]"
  "dedup [acme, bank, acme_dup, loan] = Inr [acme, bank, loan]"
  by (simp_all add: dedup_def dedup_step_def example_keys)

theorem dedup_idempotent_first_seen_order_witness:
  "list_all keyable [acme, bank, acme_dup]
   \<and> dedup [acme, bank, acme_dup] = Inr [acme, bank]
   \<and> dedup [acme, bank] = Inr [acme, bank]
   \<and> subseq [acme, bank] [acme, bank, acme_dup]"
proof -
  have n: "list_all keyable [acme, bank, acme_dup]"
    using example_keyable by simp
  from dedup_idempotent_first_seen_order [OF n] obtain ys where
    a: "dedup [acme, bank, acme_dup] = Inr ys" and b: "dedup ys = Inr ys"
    and c: "subseq ys [acme, bank, acme_dup]"
    by blast
  from a have ys: "ys = [acme, bank]"
    by (simp add: example_dedup)
  show ?thesis using n a b c unfolding ys by simp
qed

text \<open>
  C9: the key of a record is its creditor, its type and its amount, printed and joined
  with hyphens, a missing or falsy amount printed as 0; records with the same key
  collapse to one kept record: the kept records have pairwise different keys, every key
  of the input is the key of a kept record, and the kept record for the key of a record
  \<open>x\<close> is the first record of the list with that key, whatever the other fields of the
  later ones are.
\<close>

theorem same_key_keeps_first:
  assumes "list_all keyable xs"
  shows "\<exists>ys. dedup xs = Inr ys
           \<and> distinct (map dedup_key ys)
           \<and> dedup_key ` set ys = dedup_key ` set xs
           \<and> (\<forall>x\<in>set xs. \<exists>y\<in>set ys. dedup_key y = dedup_key x
                  \<and> find (\<lambda>z. dedup_key z = dedup_key x) xs = Some y)
           \<and> (\<forall>x\<in>set xs. \<exists>c t a.
                  template_string (member_of x ''creditor'') = Inr c
                  \<and> template_string (member_of x ''type'') = Inr t
                  \<and> template_string (if truthy (member_of x ''amount'')
                                       then member_of x ''amount'' else Some (JNum ''0'')) = Inr a
                  \<and> dedup_key x = Inr (c @ ''-'' @ t @ ''-'' @ a))"
proof -
  from dedup_first_seen [OF assms] obtain ys where
    d: "dedup xs = Inr ys" and s: "subseq ys xs" and k: "distinct (map key_of ys)"
    and ks: "key_of ` set ys = key_of ` set xs"
    and f: "\<forall>y\<in>set ys. find (\<lambda>x. key_of x = key_of y) xs = Some y"
    by blast
  have nys: "list_all keyable ys" using s assms by (rule subseq_keyable)
  have kx: "\<And>x. x \<in> set xs \<Longrightarrow> dedup_key x = Inr (key_of x)"
    using assms by (simp add: list_all_iff dedup_key_keyable)
  have ky: "\<And>y. y \<in> set ys \<Longrightarrow> dedup_key y = Inr (key_of y)"
    using nys by (simp add: list_all_iff dedup_key_keyable)
  have m: "map dedup_key ys = map Inr (map key_of ys)"
    using ky by simp
  have dk: "distinct (map dedup_key ys)"
    unfolding m using k by (auto simp: distinct_map inj_on_def)
  have im: "dedup_key ` set ys = dedup_key ` set xs"
  proof -
    have "dedup_key ` set ys = Inr ` key_of ` set ys" using ky by (auto simp: image_iff)
    also have "\<dots> = Inr ` key_of ` set xs" using ks by simp
    also have "\<dots> = dedup_key ` set xs" using kx by (auto simp: image_iff)
    finally show ?thesis .
  qed
  have fx: "\<exists>y\<in>set ys. dedup_key y = dedup_key x
              \<and> find (\<lambda>z. dedup_key z = dedup_key x) xs = Some y" if x: "x \<in> set xs" for x
  proof -
    from x ks obtain y where y: "y \<in> set ys" and e: "key_of y = key_of x"
      by (metis imageE imageI)
    have "find (\<lambda>z. dedup_key z = dedup_key x) xs = find (\<lambda>z. key_of z = key_of y) xs"
      by (rule find_cong) (auto simp: kx x e)
    then show ?thesis using f y e kx [OF x] ky [OF y] by auto
  qed
  have fm: "\<exists>c t a.
              template_string (member_of x ''creditor'') = Inr c
              \<and> template_string (member_of x ''type'') = Inr t
              \<and> template_string (if truthy (member_of x ''amount'')
                                   then member_of x ''amount'' else Some (JNum ''0'')) = Inr a
              \<and> dedup_key x = Inr (c @ ''-'' @ t @ ''-'' @ a)" if "x \<in> set xs" for x
    using that assms by (intro dedup_key_formula) (simp add: list_all_iff)
  show ?thesis using d dk im fx fm by blast
qed

theorem same_key_keeps_first_witness:
  "list_all keyable [acme, bank, acme_dup, bank_zero]
   \<and> dedup_key acme = Inr ''Acme-COLLECTION-5000''
   \<and> dedup_key acme_dup = dedup_key acme
   \<and> acme \<noteq> acme_dup
   \<and> member_of bank ''amount'' = None
   \<and> member_of bank_zero ''amount'' = Some (JNum ''0'')
   \<and> dedup_key bank = Inr ''Bank-CREDIT_CARD-0''
   \<and> dedup_key bank_zero = dedup_key bank
   \<and> dedup [acme, bank, acme_dup, bank_zero] = Inr [acme, bank]
   \<and> find (\<lambda>z. dedup_key z = dedup_key acme_dup) [acme, bank, acme_dup, bank_zero] = Some acme
   \<and> find (\<lambda>z. dedup_key z = dedup_key bank_zero) [acme, bank, acme_dup, bank_zero] = Some bank"
proof -
  let ?xs = "[acme, bank, acme_dup, bank_zero]"
  have n: "list_all keyable ?xs"
    using example_keyable by simp
  have ne: "acme \<noteq> acme_dup"
    by (simp add: acme_def acme_dup_def)
  have am: "member_of bank ''amount'' = None" "member_of bank_zero ''amount'' = Some (JNum ''0'')"
    by (simp_all add: bank_def bank_zero_def)
  from same_key_keeps_first [OF n] obtain ys where
    a: "dedup ?xs = Inr ys"
    and f: "\<forall>x\<in>set ?xs. \<exists>y\<in>set ys. dedup_key y = dedup_key x
              \<and> find (\<lambda>z. dedup_key z = dedup_key x) ?xs = Some y"
    and k: "\<forall>x\<in>set ?xs. \<exists>c t a.
              template_string (member_of x ''creditor'') = Inr c
              \<and> template_string (member_of x ''type'') = Inr t
              \<and> template_string (if truthy (member_of x ''amount'')
                                   then member_of x ''amount'' else Some (JNum ''0'')) = Inr a
              \<and> dedup_key x = Inr (c @ ''-'' @ t @ ''-'' @ a)"
    by blast
  from a have ys: "ys = [acme, bank]"
    by (simp add: example_dedup)
  from f have f1: "find (\<lambda>z. dedup_key z = dedup_key acme_dup) ?xs = Some acme"
    and f2: "find (\<lambda>z. dedup_key z = dedup_key bank_zero) ?xs = Some bank"
    unfolding ys by (simp_all add: example_keys)
  from k have "\<exists>c t a. template_string (member_of acme ''creditor'') = Inr c
              \<and> template_string (member_of acme ''type'') = Inr t
              \<and> template_string (if truthy (member_of acme ''amount'')
                                   then member_of acme ''amount'' else Some (JNum ''0'')) = Inr a
              \<and> dedup_key acme = Inr (c @ ''-'' @ t @ ''-'' @ a)"
    and "\<exists>c t a. template_string (member_of bank ''creditor'') = Inr c
              \<and> template_string (member_of bank ''type'') = Inr t
              \<and> template_string (if truthy (member_of bank ''amount'')
                                   then member_of bank ''amount'' else Some (JNum ''0'')) = Inr a
              \<and> dedup_key bank = Inr (c @ ''-'' @ t @ ''-'' @ a)"
    by simp_all
  then have k1: "dedup_key acme = Inr ''Acme-COLLECTION-5000''"
    and k2: "dedup_key bank = Inr ''Bank-CREDIT_CARD-0''"
    by (auto simp: acme_def bank_def template_string_def)
  show ?thesis
    using n ne am a f1 f2 k1 k2 unfolding ys by (simp add: example_keys)
qed

section \<open>Properties of the response parsing\<close>

lemma foldl_append_concat: "foldl (\<lambda>acc i. acc @ f i) a l = a @ concat (map f l)"
  by (induction l arbitrary: a) simp_all

lemma collect_items_concat:
  "collect_items l chunks =
     concat (map (\<lambda>k. chunk_records (l k (chunks ! k))) [0..<length chunks])"
  by (simp add: collect_items_def foldl_append_concat)


lemma chunk_try_items:
  "map_of kvs ''items'' = Some (JArr xs) \<Longrightarrow> chunk_try (Inr (JObj kvs)) = Inr xs"
  by (simp add: chunk_try_def parsed_records_def get_prop_def)

lemma chunk_try_accounts:
  "\<not> truthy (map_of kvs ''items'') \<Longrightarrow> map_of kvs ''accounts'' = Some (JArr xs) \<Longrightarrow>
   chunk_try (Inr (JObj kvs)) = Inr xs"
  by (simp add: chunk_try_def parsed_records_def get_prop_def js_or_def)

lemma chunk_try_neither:
  "map_of kvs ''items'' = None \<Longrightarrow> map_of kvs ''accounts'' = None \<Longrightarrow>
   chunk_try (Inr (JObj kvs)) = Inr []"
  by (simp add: chunk_try_def parsed_records_def get_prop_def js_or_def)

text \<open>
  An object with an \<^verbatim>\<open>accounts\<close> array whose \<^verbatim>\<open>items\<close> is the empty array (which is
  truthy) contributes nothing, where the same array under \<^verbatim>\<open>items\<close> is pushed.
\<close>

theorem accounts_ignored_beside_items:
  "chunk_records (Inr (JObj [(''items'', JArr []), (''accounts'', JArr [acme])])) = []
   \<and> chunk_records (Inr (JObj [(''items'', JArr [acme])])) = [acme]"
  by (simp add: chunk_records_def chunk_try_def parsed_records_def get_prop_def)

text \<open>
  C7, as the code has it: a response object whose \<^verbatim>\<open>items\<close> is an array contributes
  that array; a response object whose \<^verbatim>\<open>items\<close> is missing or falsy and whose
  \<^verbatim>\<open>accounts\<close> is an array contributes that array in the same way; a response object
  with neither key contributes no record, and the \<^verbatim>\<open>try\<close> block of the iteration ends
  without an error. What the iterations contribute, in the order of the chunks, is what
  the loop leaves in \<^verbatim>\<open>allItems\<close>.
\<close>

theorem accounts_accepted_like_items:
  "(map_of kvs ''items'' = Some (JArr xs) \<longrightarrow>
      chunk_try (Inr (JObj kvs)) = Inr xs \<and> chunk_records (Inr (JObj kvs)) = xs)
   \<and> (\<not> truthy (map_of kvs ''items'') \<and> map_of kvs ''accounts'' = Some (JArr xs) \<longrightarrow>
      chunk_try (Inr (JObj kvs)) = Inr xs \<and> chunk_records (Inr (JObj kvs)) = xs)
   \<and> (map_of kvs ''items'' = None \<and> map_of kvs ''accounts'' = None \<longrightarrow>
      chunk_try (Inr (JObj kvs)) = Inr [] \<and> chunk_records (Inr (JObj kvs)) = [])
   \<and> collect_items l chunks
       = concat (map (\<lambda>k. chunk_records (l k (chunks ! k))) [0..<length chunks])"
  using collect_items_concat [of l chunks]
  by (auto simp: chunk_records_def chunk_try_items chunk_try_accounts chunk_try_neither)

theorem accounts_accepted_like_items_witness:
  "chunk_records (Inr (JObj [(''items'', JArr [acme, bank])])) = [acme, bank]
   \<and> chunk_records (Inr (JObj [(''accounts'', JArr [acme, bank])])) = [acme, bank]
   \<and> chunk_try (Inr (JObj [(''note'', JStr ''none found'')])) = Inr []
   \<and> collect_items mixed_llm [''one'', ''two'', ''three''] = [acme, bank, loan]"
proof -
  note a = accounts_accepted_like_items [of "[(''items'', JArr [acme, bank])]" "[acme, bank]"]
  note b = accounts_accepted_like_items [of "[(''accounts'', JArr [acme, bank])]" "[acme, bank]"]
  note c = accounts_accepted_like_items [of "[(''note'', JStr ''none found'')]" "[]"]
  note d = accounts_accepted_like_items [of "[(''accounts'', JArr [loan])]" "[loan]"
             mixed_llm "[''one'', ''two'', ''three'']"]
  have 1: "chunk_records (Inr (JObj [(''items'', JArr [acme, bank])])) = [acme, bank]"
    using a by simp
  have 2: "chunk_records (Inr (JObj [(''accounts'', JArr [acme, bank])])) = [acme, bank]"
    using b by simp
  have 3: "chunk_try (Inr (JObj [(''note'', JStr ''none found'')])) = Inr []"
    and n3: "chunk_records (Inr (JObj [(''note'', JStr ''none found'')])) = []"
    using c by simp_all
  have 4: "chunk_records (Inr (JObj [(''accounts'', JArr [loan])])) = [loan]"
    using d by simp
  have 5: "collect_items mixed_llm [''one'', ''two'', ''three'']
           = concat (map (\<lambda>k. chunk_records (mixed_llm k ([''one'', ''two'', ''three''] ! k)))
                       [0..<length [''one'', ''two'', ''three'']])"
    using d by blast
  have "collect_items mixed_llm [''one'', ''two'', ''three''] = [acme, bank, loan]"
    unfolding 5 by (simp add: mixed_llm_def 1 n3 4)
  then show ?thesis using 1 2 3 by simp
qed

section \<open>Properties of the text extraction\<close>

subsection \<open>Text extraction\<close>

lemma length_trim_le: "length (trim s) \<le> length s"
proof -
  have "length (trim s) \<le> length (dropWhile is_ws s)"
    unfolding trim_def length_rev by (metis length_dropWhile_le length_rev)
  also have "\<dots> \<le> length s" by (rule length_dropWhile_le)
  finally show ?thesis .
qed

lemma trim_Nil: "trim [] = []"
  by (simp add: trim_def)

lemma dropWhile_replicate_append:
  "\<not> P a \<Longrightarrow> 0 < n \<Longrightarrow> dropWhile P (replicate n a @ xs) = replicate n a @ xs"
  by (cases n) simp_all

lemma trim_replicate_ws:
  assumes "\<not> is_ws a" and "is_ws b" and "0 < n"
  shows "trim (replicate n a @ replicate k b) = replicate n a"
proof -
  have 1: "dropWhile is_ws (replicate n a @ replicate k b) = replicate n a @ replicate k b"
    using assms by (simp add: dropWhile_replicate_append)
  have 2: "dropWhile is_ws (replicate k b @ replicate n a) = dropWhile is_ws (replicate n a)"
    using assms by (intro dropWhile_append2) simp
  have 3: "dropWhile is_ws (replicate n a) = replicate n a"
    using assms by simp
  show ?thesis
    unfolding trim_def 1 by (simp only: rev_append rev_replicate 2 3)
qed

lemma trim_replicate: "\<not> is_ws a \<Longrightarrow> 0 < n \<Longrightarrow> trim (replicate n a) = replicate n a"
  using trim_replicate_ws [of a "CHR '' ''" n 0] by (simp add: is_ws_def)

lemma extractPdfText_native:
  "parse buf = Inr t \<Longrightarrow> 100 < length (trim t) \<Longrightarrow> extractPdfText parse ocrs buf = (Inr t, 0)"
  by (auto simp: extractPdfText_def trim_Nil)

lemma extractPdfText_throws:
  "parse buf = Inl e \<Longrightarrow> extractPdfText parse ocrs buf = (extractTextWithOCR (ocrs 0 buf), 1)"
  by (simp add: extractPdfText_def)

text \<open>
  When the native text is too short the first OCR invocation stands inside the
  \<^verbatim>\<open>try\<close>: its failure is caught and the OCR helper runs again.
\<close>

lemma extractPdfText_short:
  "parse buf = Inr t \<Longrightarrow> length (trim t) \<le> 100 \<Longrightarrow>
   extractPdfText parse ocrs buf =
     (case extractTextWithOCR (ocrs 0 buf) of
        Inr ocrText \<Rightarrow> (Inr ocrText, 1)
      | Inl e \<Rightarrow> (extractTextWithOCR (ocrs 1 buf), 2))"
  by (simp add: extractPdfText_def)

lemma extractTextWithOCR_pages:
  "createWorker run = None \<Longrightarrow> fromBuffer run = None \<Longrightarrow>
   extractTextWithOCR run = Inr (concat (map (\<lambda>i. page_text (page run i)) [1..<Suc pageCount]))"
  by (simp add: extractTextWithOCR_def foldl_append_concat)

lemma extractTextWithOCR_blank: "extractTextWithOCR blank_ocr = Inr []"
  by (simp add: extractTextWithOCR_pages blank_ocr_def)


lemma is_ws_a: "\<not> is_ws (CHR ''a'')" "is_ws (CHR '' '')"
  by (simp_all add: is_ws_def)

lemma trim_text_100: "trim text_100 = text_100" "length text_100 = 100"
  by (simp_all add: text_100_def trim_replicate is_ws_a)

lemma trim_text_padded: "length (trim text_padded) = 60" "length text_padded = 110"
  by (simp_all add: text_padded_def trim_replicate_ws is_ws_a)

lemma line_a_facts:
  "length line_a = 12000" "nl \<notin> set line_a"
  by (simp_all add: line_a_def nl_def)

lemma split_report_text: "split_nl report_text = [line_a, line_a, line_a]"
  by (simp add: report_text_def split_nl_append split_nl_single line_a_facts)

lemma chunks_report_text:
  "chunkText report_text defaultMaxChunkSize = [line_a @ [nl], line_a @ [nl], line_a @ [nl]]"
  by (simp add: chunkText_def split_report_text chunk_step_def Let_def line_a_facts
        defaultMaxChunkSize_def)

lemma length_report_text: "length report_text = 36002"
  by (simp add: report_text_def line_a_facts)

lemma trim_report_text: "100 < length (trim report_text)"
proof -
  have 1: "dropWhile is_ws report_text = report_text"
    by (simp add: report_text_def line_a_def dropWhile_replicate_append is_ws_a)
  have 2: "rev report_text = report_text"
    by (simp add: report_text_def line_a_def)
  show ?thesis
    by (simp add: trim_def 1 2 length_report_text)
qed

lemma extractTextWithOCR_broken:
  "extractTextWithOCR broken_ocr = Inl (Error ''Worker failed to start'')"
  by (simp add: extractTextWithOCR_def broken_ocr_def)

text \<open>
  A native text of exactly 100 letters goes to the OCR helper too, although the handler
  takes a text of 100 code units as sufficient.
\<close>

lemma threshold_text_goes_to_OCR:
  "length text_100 = 100
   \<and> extractPdfText (pdfParse threshold_env) (ocr threshold_env) pdf_bytes = (Inr [], 1)"
  by (simp add: extractPdfText_def threshold_env_def example_env_def trim_text_100
        extractTextWithOCR_blank)

text \<open>
  A native text of 110 characters of which the last 50 are spaces is not returned: the
  OCR helper is invoked and its (here empty) output is returned.
\<close>

theorem padded_native_text_goes_to_OCR:
  "100 \<le> length text_padded
   \<and> pdfParse padded_env pdf_bytes = Inr text_padded
   \<and> extractPdfText (pdfParse padded_env) (ocr padded_env) pdf_bytes = (Inr [], 1)"
  by (simp add: extractPdfText_def padded_env_def example_env_def trim_text_padded
        extractTextWithOCR_blank)

text \<open>
  C2, as the code has it by design: the native text is returned, and the OCR helper not
  invoked, when the native extraction succeeds with a text of more than 100 code units
  after \<^verbatim>\<open>trim()\<close>; when the native extraction throws, the OCR helper is invoked once
  and its outcome is the outcome of the extractor; when the native text has fewer than
  100 code units after trimming, the OCR helper is invoked, and the text it returns is
  returned.
\<close>

theorem extractPdfText_threshold:
  "(parse buf = Inr t \<and> 100 < length (trim t)
      \<longrightarrow> extractPdfText parse ocrs buf = (Inr t, 0))
   \<and> (parse buf = Inl e
      \<longrightarrow> extractPdfText parse ocrs buf = (extractTextWithOCR (ocrs 0 buf), 1))
   \<and> (parse buf = Inr t \<and> length (trim t) < 100
      \<longrightarrow> 0 < snd (extractPdfText parse ocrs buf)
          \<and> (\<forall>ocrText. extractTextWithOCR (ocrs 0 buf) = Inr ocrText
                \<longrightarrow> extractPdfText parse ocrs buf = (Inr ocrText, 1)))"
  by (auto simp: extractPdfText_native extractPdfText_throws extractPdfText_short
        split: sum.splits)

theorem extractPdfText_threshold_witness:
  "extractPdfText (pdfParse example_env) (ocr example_env) pdf_bytes = (Inr report_text, 0)
   \<and> extractPdfText (pdfParse scanned_env) (ocr scanned_env) pdf_bytes = (Inr [], 1)
   \<and> extractPdfText (pdfParse unreadable_env) (ocr unreadable_env) pdf_bytes
       = (Inl (Error ''Worker failed to start''), 1)
   \<and> length (trim text_padded) = 60
   \<and> extractPdfText (pdfParse padded_env) (ocr padded_env) pdf_bytes = (Inr [], 1)"
proof -
  have a: "pdfParse example_env pdf_bytes = Inr report_text \<and> 100 < length (trim report_text)"
    by (simp add: example_env_def trim_report_text)
  have b: "pdfParse scanned_env pdf_bytes = Inl (Error ''Invalid PDF structure'')"
    "pdfParse unreadable_env pdf_bytes = Inl (Error ''Invalid PDF structure'')"
    by (simp_all add: scanned_env_def unreadable_env_def)
  have c: "pdfParse padded_env pdf_bytes = Inr text_padded \<and> length (trim text_padded) < 100"
    by (simp add: padded_env_def trim_text_padded)
  have o: "extractTextWithOCR (ocr scanned_env 0 pdf_bytes) = Inr []"
    "extractTextWithOCR (ocr unreadable_env 0 pdf_bytes) = Inl (Error ''Worker failed to start'')"
    "extractTextWithOCR (ocr padded_env 0 pdf_bytes) = Inr []"
    by (simp_all add: scanned_env_def unreadable_env_def padded_env_def example_env_def
          extractTextWithOCR_blank extractTextWithOCR_broken)
  show ?thesis
    using extractPdfText_threshold
            [of "pdfParse example_env" pdf_bytes report_text "ocr example_env"]
          extractPdfText_threshold
            [of "pdfParse scanned_env" pdf_bytes _ "ocr scanned_env"
                "Error ''Invalid PDF structure''"]
          extractPdfText_threshold
            [of "pdfParse unreadable_env" pdf_bytes _ "ocr unreadable_env"
                "Error ''Invalid PDF structure''"]
          extractPdfText_threshold
            [of "pdfParse padded_env" pdf_bytes text_padded "ocr padded_env"]
          a b c
    by (simp add: o trim_text_padded)
qed

section \<open>Properties of the handler\<close>

subsection \<open>The steps\<close>



lemma extract_items_ok:
  assumes "download e (filePath req) = Inr buf"
    and "fst (extractPdfText (pdfParse e) (ocr e) buf) = Inr t"
    and "100 \<le> length t"
  shows "extract_items e req =
           dedup (collect_items (llm e) (chunkText t defaultMaxChunkSize))"
  using assms by (auto simp: extract_items_def processChunksWithOpenAI_def)

lemma extract_items_short:
  assumes "download e (filePath req) = Inr buf"
    and "fst (extractPdfText (pdfParse e) (ocr e) buf) = Inr t"
    and "length t < 100"
  shows "extract_items e req = Inl (Error ''Could not extract sufficient text from PDF'')"
  using assms by (auto simp: extract_items_def)

lemma process_completed:
  assumes "extract_items e req = Inr items" and "negativeItems items = Inr negs"
  shows "process e req =
           \<lparr> updates = [SetProcessing, SetCompleted (make_summary items negs)],
             written = save_items e (profileId req) items,
             reply = Success (jobId req) (length items) (length negs) \<rparr>"
  using assms by (simp add: process_def)

lemma process_failed:
  assumes "extract_items e req = Inl err"
  shows "process e req = fail_with err []"
  using assms by (simp add: process_def)

lemma updates_process:
  "map update_status (updates (process e req)) = [Processing, Completed]
   \<or> map update_status (updates (process e req)) = [Processing, Failed]"
  by (simp add: process_def fail_with_def Let_def split: sum.splits)

lemma item_row_constants:
  "item_row pid item = Inr row \<Longrightarrow> row_status row = ''TO_SEND'' \<and> confidence row = 8 / 10"
  by (cases "item = JNull") (auto simp: item_row_def get_prop_def)

lemma save_items_constants:
  "row \<in> set (save_items e pid items) \<Longrightarrow> row_status row = ''TO_SEND'' \<and> confidence row = 8 / 10"
  by (auto simp: save_items_def save_item_def item_row_constants split: sum.splits if_splits)

lemma written_process:
  "set (written (process e req))
     \<subseteq> (\<Union>items. set (save_items e (profileId req) items))"
  by (auto simp: process_def fail_with_def Let_def split: sum.splits)

text \<open>Whether the store applies the updates has no bearing on what the handler does.\<close>

lemma extract_items_update_lands:
  "extract_items (e\<lparr>update_lands := f\<rparr>) req = extract_items e req"
  by (simp add: extract_items_def cong: if_cong sum.case_cong)

lemma save_items_update_lands:
  "save_items (e\<lparr>update_lands := f\<rparr>) pid items = save_items e pid items"
proof -
  have "save_item (e\<lparr>update_lands := f\<rparr>) pid = save_item e pid"
    by (auto simp: save_item_def fun_eq_iff split: sum.splits)
  then show ?thesis by (simp add: save_items_def)
qed

lemma process_update_lands:
  "process (e\<lparr>update_lands := f\<rparr>) req = process e req"
  by (simp add: process_def extract_items_update_lands save_items_update_lands
        cong: sum.case_cong)



subsection \<open>The updates of the job\<close>

lemma final_job_two:
  "updates (process e req) = [u0, u1] \<Longrightarrow>
   final_job e req j = store_update e (store_update e j (0, u0)) (1, u1)"
  by (simp add: final_job_def)

lemma final_job_completed:
  "updates (process e req) = [SetProcessing, SetCompleted s] \<Longrightarrow> update_lands e 1 \<Longrightarrow>
   status (final_job e req j) = Completed \<and> result_json (final_job e req j) = Some s"
  by (simp add: final_job_two store_update_def)

lemma final_job_failed:
  "updates (process e req) = [SetProcessing, SetFailed m] \<Longrightarrow> update_lands e 1 \<Longrightarrow>
   status (final_job e req j) = Failed \<and> error_message (final_job e req j) = Some m"
  by (simp add: final_job_two store_update_def)

lemma final_job_refused:
  "updates (process e req) = [SetProcessing, u] \<Longrightarrow> update_lands e 0 \<Longrightarrow> \<not> update_lands e 1 \<Longrightarrow>
   status (final_job e req j) = Processing"
  by (simp add: final_job_two store_update_def)

lemma updates_shape:
  "(\<exists>s. updates (process e req) = [SetProcessing, SetCompleted s])
   \<or> (\<exists>m. updates (process e req) = [SetProcessing, SetFailed m])"
  by (simp add: process_def fail_with_def Let_def split: sum.splits)

text \<open>
  C1, as the code has it: an invocation sends two updates of the status of the job,
  \<open>Processing\<close> and then exactly one of \<open>Completed\<close> and \<open>Failed\<close>; when the store
  applies that last update, the status of the job after the invocation is the one it
  sets, and it is not \<open>Processing\<close>.
\<close>

theorem terminal_status_exclusive:
  "(map update_status (updates (process e req)) = [Processing, Completed]
      \<or> map update_status (updates (process e req)) = [Processing, Failed])
   \<and> (update_lands e 1 \<longrightarrow>
        status (final_job e req j) = last (map update_status (updates (process e req)))
        \<and> status (final_job e req j) \<in> {Completed, Failed}
        \<and> status (final_job e req j) \<noteq> Processing)"
proof -
  from updates_shape [of e req] show ?thesis
  proof (elim disjE exE)
    fix s assume u: "updates (process e req) = [SetProcessing, SetCompleted s]"
    show ?thesis using final_job_completed [OF u, of j] by (auto simp: u)
  next
    fix m assume u: "updates (process e req) = [SetProcessing, SetFailed m]"
    show ?thesis using final_job_failed [OF u, of j] by (auto simp: u)
  qed
qed

text \<open>
  C10: every row the handler writes to \<^verbatim>\<open>credit_items\<close> has the status
  \<^verbatim>\<open>'TO_SEND'\<close> and the confidence 0.8, whatever the language service answered.
\<close>

theorem rows_have_fixed_status_and_confidence:
  "\<forall>row\<in>set (written (process e req)). row_status row = ''TO_SEND'' \<and> confidence row = 8 / 10"
  using written_process [of e req] save_items_constants by blast

text \<open>
  C8, as the code has it: a text returned by the extractor is the native text, and then
  of at least 100 code units, or it is the output of the last OCR invocation, which can
  be empty; when the extractor fails, it fails with the error of the last OCR
  invocation; a returned text shorter than 100 code units (the empty one included) makes
  the handler fail the job with the insufficient-text error before anything is saved.
\<close>

theorem extractPdfText_result:
  "(fst (extractPdfText parse ocrs buf) = Inr t \<longrightarrow>
      (parse buf = Inr t \<and> t \<noteq> [] \<and> 100 \<le> length t
          \<and> snd (extractPdfText parse ocrs buf) = 0)
      \<or> (0 < snd (extractPdfText parse ocrs buf)
          \<and> extractTextWithOCR (ocrs (snd (extractPdfText parse ocrs buf) - 1) buf) = Inr t))
   \<and> (fst (extractPdfText parse ocrs buf) = Inl err \<longrightarrow>
      0 < snd (extractPdfText parse ocrs buf)
      \<and> extractTextWithOCR (ocrs (snd (extractPdfText parse ocrs buf) - 1) buf) = Inl err)
   \<and> (download e (filePath req) = Inr buf
        \<and> fst (extractPdfText (pdfParse e) (ocr e) buf) = Inr t \<and> length t < 100 \<longrightarrow>
      updates (process e req)
        = [SetProcessing, SetFailed ''Could not extract sufficient text from PDF'']
      \<and> written (process e req) = []
      \<and> reply (process e req) = Failure ''Could not extract sufficient text from PDF'')"
proof -
  have a: "(parse buf = Inr t \<and> t \<noteq> [] \<and> 100 \<le> length t
              \<and> snd (extractPdfText parse ocrs buf) = 0)
      \<or> (0 < snd (extractPdfText parse ocrs buf)
          \<and> extractTextWithOCR (ocrs (snd (extractPdfText parse ocrs buf) - 1) buf) = Inr t)"
    if r: "fst (extractPdfText parse ocrs buf) = Inr t"
  proof (cases "parse buf")
    case (Inl err)
    then show ?thesis using r by (simp add: extractPdfText_throws)
  next
    case (Inr t')
    show ?thesis
    proof (cases "100 < length (trim t')")
      case True
      then have "100 < length t'" using length_trim_le [of t'] by simp
      then show ?thesis using Inr True r by (auto simp: extractPdfText_native)
    next
      case False
      then show ?thesis using Inr r
        by (auto simp: extractPdfText_short split: sum.splits)
    qed
  qed
  have c: "0 < snd (extractPdfText parse ocrs buf)
      \<and> extractTextWithOCR (ocrs (snd (extractPdfText parse ocrs buf) - 1) buf) = Inl err"
    if r: "fst (extractPdfText parse ocrs buf) = Inl err"
  proof (cases "parse buf")
    case (Inl err')
    then show ?thesis using r by (simp add: extractPdfText_throws)
  next
    case (Inr t')
    show ?thesis
    proof (cases "100 < length (trim t')")
      case True
      then show ?thesis using Inr r by (simp add: extractPdfText_native)
    next
      case False
      then show ?thesis using Inr r
        by (auto simp: extractPdfText_short split: sum.splits)
    qed
  qed
  have b: "updates (process e req)
        = [SetProcessing, SetFailed ''Could not extract sufficient text from PDF'']
      \<and> written (process e req) = []
      \<and> reply (process e req) = Failure ''Could not extract sufficient text from PDF''"
    if "download e (filePath req) = Inr buf"
      and "fst (extractPdfText (pdfParse e) (ocr e) buf) = Inr t" and "length t < 100"
    using extract_items_short [OF that] by (simp add: process_failed fail_with_def)
  show ?thesis using a b c by blast
qed

subsection \<open>The example runs\<close>

lemma example_extract:
  "extractPdfText (pdfParse example_env) (ocr example_env) pdf_bytes = (Inr report_text, 0)"
  by (simp add: example_env_def extractPdfText_native trim_report_text)

lemma example_collect:
  "collect_items example_llm [line_a @ [nl], line_a @ [nl], line_a @ [nl]] = [acme, bank, acme_dup]"
  by (simp add: collect_items_concat example_llm_def
        chunk_records_def chunk_try_def parsed_records_def get_prop_def js_or_def)

lemma example_extract_items: "extract_items example_env example_request = Inr [acme, bank]"
proof -
  have d: "download example_env (filePath example_request) = Inr pdf_bytes"
    by (simp add: example_env_def)
  have x: "fst (extractPdfText (pdfParse example_env) (ocr example_env) pdf_bytes) = Inr report_text"
    by (simp add: example_extract)
  have l: "100 \<le> length report_text"
    by (simp add: length_report_text)
  have m: "llm example_env = example_llm"
    by (simp add: example_env_def)
  show ?thesis
    unfolding extract_items_ok [OF d x l] chunks_report_text m example_collect
    by (rule example_dedup)
qed

lemma example_negative: "negativeItems [acme, bank] = Inr [bank]"
  by (simp add: get_prop_def acme_def bank_def)

lemma example_rows:
  "map row_status (save_items example_env pid [acme, bank]) = [''TO_SEND'', ''TO_SEND'']"
  "map creditor (save_items example_env pid [acme, bank]) = [Some (JStr ''Acme''), Some (JStr ''Bank'')]"
  by (simp_all add: save_items_def save_item_def item_row_def get_prop_def example_env_def
        acme_def bank_def)

lemma partial_extract_items: "extract_items partial_env example_request = Inr [acme, bank, loan]"
proof -
  have d: "download partial_env (filePath example_request) = Inr pdf_bytes"
    by (simp add: partial_env_def example_env_def)
  have x: "fst (extractPdfText (pdfParse partial_env) (ocr partial_env) pdf_bytes) = Inr report_text"
    using example_extract by (simp add: partial_env_def)
  have l: "100 \<le> length report_text"
    by (simp add: length_report_text)
  have m: "llm partial_env = partial_llm"
    by (simp add: partial_env_def)
  have c: "collect_items partial_llm [line_a @ [nl], line_a @ [nl], line_a @ [nl]]
             = [acme, bank, acme_dup, loan]"
    by (simp add: collect_items_concat partial_llm_def
          chunk_records_def chunk_try_def parsed_records_def get_prop_def js_or_def)
  show ?thesis
    unfolding extract_items_ok [OF d x l] chunks_report_text m c
    by (rule example_dedup)
qed



text \<open>
  The store applies the first update and refuses the second: the handler has sent the
  update to \<open>Completed\<close>, and the job is left at \<open>Processing\<close>.
\<close>

theorem refused_update_leaves_processing:
  "map update_status (updates (process refusing_env example_request)) = [Processing, Completed]
   \<and> reply (process refusing_env example_request) = Success ''job-1'' 2 1
   \<and> status (final_job refusing_env example_request queued_job) = Processing"
proof -
  have p: "process refusing_env example_request = process example_env example_request"
    by (simp add: refusing_env_def process_update_lands)
  have u: "updates (process refusing_env example_request)
             = [SetProcessing, SetCompleted (make_summary [acme, bank] [bank])]"
    unfolding p by (simp add: process_completed [OF example_extract_items example_negative])
  have "reply (process example_env example_request)
          = Success (jobId example_request) (length [acme, bank]) (length [bank])"
    by (simp add: process_completed [OF example_extract_items example_negative])
  then have r: "reply (process refusing_env example_request) = Success ''job-1'' 2 1"
    unfolding p by (simp add: example_request_def)
  have l: "update_lands refusing_env 0" "\<not> update_lands refusing_env 1"
    by (simp_all add: refusing_env_def)
  show ?thesis
    using final_job_refused [OF u l, of queued_job] r by (simp add: u)
qed

theorem terminal_status_exclusive_witness:
  "update_lands example_env 1
   \<and> status (final_job example_env example_request queued_job) = Completed
   \<and> map update_status (updates (process example_env example_request)) = [Processing, Completed]
   \<and> update_lands missing_env 1
   \<and> status (final_job missing_env example_request queued_job) = Failed
   \<and> map update_status (updates (process missing_env example_request)) = [Processing, Failed]
   \<and> error_message (final_job missing_env example_request queued_job)
       = Some ''Failed to download file: Object not found''"
proof -
  have u: "updates (process example_env example_request)
             = [SetProcessing, SetCompleted (make_summary [acme, bank] [bank])]"
    by (simp add: process_completed [OF example_extract_items example_negative])
  have m: "extract_items missing_env example_request
             = Inl (Error ''Failed to download file: Object not found'')"
    by (simp add: extract_items_def missing_env_def example_env_def)
  have v: "updates (process missing_env example_request)
             = [SetProcessing, SetFailed ''Failed to download file: Object not found'']"
    by (simp add: process_failed [OF m] fail_with_def)
  have l: "update_lands example_env 1" "update_lands missing_env 1"
    by (simp_all add: missing_env_def example_env_def)
  show ?thesis
    using terminal_status_exclusive [of example_env example_request queued_job]
      terminal_status_exclusive [of missing_env example_request queued_job]
      final_job_completed [OF u l(1), of queued_job] final_job_failed [OF v l(2), of queued_job] l
    by (simp add: u v)
qed

theorem rows_have_fixed_status_and_confidence_witness:
  "map creditor (written (process example_env example_request))
     = [Some (JStr ''Acme''), Some (JStr ''Bank'')]
   \<and> map row_status (written (process example_env example_request)) = [''TO_SEND'', ''TO_SEND'']
   \<and> map confidence (written (process example_env example_request)) = [8 / 10, 8 / 10]"
proof -
  have w: "written (process example_env example_request)
             = save_items example_env (profileId example_request) [acme, bank]"
    by (simp add: process_completed [OF example_extract_items example_negative])
  have len: "length (save_items example_env (profileId example_request) [acme, bank]) = 2"
    using example_rows(1) [of "profileId example_request"] by (metis length_map length_Cons list.size(3) numeral_2_eq_2)
  from rows_have_fixed_status_and_confidence [of example_env example_request]
  have "\<forall>row\<in>set (save_items example_env (profileId example_request) [acme, bank]).
          row_status row = ''TO_SEND'' \<and> confidence row = 8 / 10"
    unfolding w .
  then have "map confidence (save_items example_env (profileId example_request) [acme, bank])
               = map (\<lambda>row. 8 / 10) (save_items example_env (profileId example_request) [acme, bank])"
    and "map row_status (save_items example_env (profileId example_request) [acme, bank])
               = map (\<lambda>row. ''TO_SEND'') (save_items example_env (profileId example_request) [acme, bank])"
    by simp_all
  then show ?thesis
    unfolding w using len example_rows(2) [of "profileId example_request"]
    by (simp add: map_replicate_const numeral_2_eq_2)
qed

text \<open>
  The native extraction throws and no page can be converted: the extractor returns
  successfully, with the empty text.
\<close>

theorem extractor_returns_empty_text:
  "extractPdfText (pdfParse scanned_env) (ocr scanned_env) pdf_bytes = (Inr [], 1)"
  by (simp add: scanned_env_def example_env_def extractPdfText_throws extractTextWithOCR_blank)

theorem extractPdfText_result_witness:
  "fst (extractPdfText (pdfParse scanned_env) (ocr scanned_env) pdf_bytes) = Inr []
   \<and> extractTextWithOCR (ocr scanned_env 0 pdf_bytes) = Inr []
   \<and> updates (process scanned_env example_request)
       = [SetProcessing, SetFailed ''Could not extract sufficient text from PDF'']
   \<and> written (process scanned_env example_request) = []
   \<and> fst (extractPdfText (pdfParse unreadable_env) (ocr unreadable_env) pdf_bytes)
       = Inl (Error ''Worker failed to start'')
   \<and> extractTextWithOCR (ocr unreadable_env 0 pdf_bytes) = Inl (Error ''Worker failed to start'')
   \<and> fst (extractPdfText (pdfParse example_env) (ocr example_env) pdf_bytes) = Inr report_text
   \<and> pdfParse example_env pdf_bytes = Inr report_text
   \<and> 100 \<le> length report_text"
proof -
  have x: "extractPdfText (pdfParse scanned_env) (ocr scanned_env) pdf_bytes = (Inr [], 1)"
    by (simp add: scanned_env_def example_env_def extractPdfText_throws extractTextWithOCR_blank)
  have y: "extractPdfText (pdfParse unreadable_env) (ocr unreadable_env) pdf_bytes
             = (Inl (Error ''Worker failed to start''), 1)"
    by (simp add: unreadable_env_def scanned_env_def example_env_def extractPdfText_throws
          extractTextWithOCR_broken)
  have d: "download scanned_env (filePath example_request) = Inr pdf_bytes"
    by (simp add: scanned_env_def example_env_def)
  note a = extractPdfText_result
            [of "pdfParse scanned_env" "ocr scanned_env" pdf_bytes "[]" _ scanned_env example_request]
  note b = extractPdfText_result
            [of "pdfParse unreadable_env" "ocr unreadable_env" pdf_bytes _
                "Error ''Worker failed to start''"]
  note c = extractPdfText_result
            [of "pdfParse example_env" "ocr example_env" pdf_bytes report_text]
  have 1: "extractTextWithOCR (ocr scanned_env 0 pdf_bytes) = Inr []"
    and 2: "updates (process scanned_env example_request)
              = [SetProcessing, SetFailed ''Could not extract sufficient text from PDF'']"
    and 3: "written (process scanned_env example_request) = []"
    using a by (simp_all add: x d)
  have 4: "extractTextWithOCR (ocr unreadable_env 0 pdf_bytes) = Inl (Error ''Worker failed to start'')"
    using b by (simp add: y)
  have 5: "pdfParse example_env pdf_bytes = Inr report_text \<and> 100 \<le> length report_text"
    using c by (simp add: example_extract)
  show ?thesis
    using 1 2 3 4 5 by (simp add: x y example_extract)
qed

end
